theory Spec2Isabelle
  imports
    Main
    "HOL-Library.Log_Nat"
    "HOL-Library.AList"
    "HOL-Library.Monad_Syntax"
    "HOL-Library.Multiset"
    "HOL-Library.Char_ord"
    "HOL-Library.List_Lexorder"
    "HOL-Library.Sublist"
begin

section \<open>Python floats\<close>

text \<open>
  Every number the engine computes with is a Python \<^verbatim>\<open>float\<close>, an IEEE 754 binary64
  value. A float is modelled by the rational it denotes, or one of the two infinities, or
  NaN; every arithmetic operation computes the exact rational result and rounds it once
  to the nearest binary64 value, ties to the even significand (\<open>rnd\<close>), overflowing to
  an infinity. The two zeros are identified: the engine never divides by a float it
  computed and never prints inside the functions modelled here, so no operation below
  tells \<^verbatim>\<open>-0.0\<close> from \<^verbatim>\<open>0.0\<close>.
\<close>

datatype pyfloat = Fin rat | PInf | NInf | NaN

text \<open>\<open>ilog2 x\<close>, for \<open>0 < x\<close>, is the exponent \<open>e\<close> with \<open>2^e \<le> x < 2^(e+1)\<close>.\<close>

definition ilog2 :: "rat \<Rightarrow> int" where
  "ilog2 x = (case quotient_of x of (n, d) \<Rightarrow>
     (let e0 = bitlen n - bitlen d in if 2 powi e0 \<le> x then e0 else e0 - 1))"

definition round_half_even :: "rat \<Rightarrow> int" where
  "round_half_even y = (let f = \<lfloor>y\<rfloor>; r = y - of_int f in
     if r < 1 / 2 then f else if 1 / 2 < r then f + 1 else if even f then f else f + 1)"

text \<open>
  Rounding to binary64: the significand has 53 bits, so a value of exponent \<open>e\<close> is
  rounded to a multiple of \<open>2^(e - 52)\<close>; below the smallest normal exponent \<open>-1022\<close>
  the spacing stays \<open>2^(-1074)\<close> (subnormal numbers); the largest finite value is
  \<open>(2^53 - 1) * 2^971\<close>.
\<close>

definition rnd :: "rat \<Rightarrow> pyfloat" where
  "rnd x = (if x = 0 then Fin 0 else
     (let q = max (ilog2 \<bar>x\<bar>) (- 1022) - 52;
          m = round_half_even (\<bar>x\<bar> / 2 powi q)
      in if 971 < q \<or> (q = 971 \<and> m = 2 ^ 53) then (if 0 < x then PInf else NInf)
         else Fin (sgn x * of_int m * 2 powi q)))"

fun fneg :: "pyfloat \<Rightarrow> pyfloat" where
  "fneg (Fin a) = Fin (- a)"
| "fneg PInf = NInf"
| "fneg NInf = PInf"
| "fneg NaN = NaN"

fun fadd :: "pyfloat \<Rightarrow> pyfloat \<Rightarrow> pyfloat" where
  "fadd (Fin a) (Fin b) = rnd (a + b)"
| "fadd NaN _ = NaN"
| "fadd _ NaN = NaN"
| "fadd PInf NInf = NaN"
| "fadd NInf PInf = NaN"
| "fadd PInf _ = PInf"
| "fadd _ PInf = PInf"
| "fadd NInf _ = NInf"
| "fadd _ NInf = NInf"

definition fsub :: "pyfloat \<Rightarrow> pyfloat \<Rightarrow> pyfloat" where
  "fsub x y = fadd x (fneg y)"

fun fmul :: "pyfloat \<Rightarrow> pyfloat \<Rightarrow> pyfloat" where
  "fmul (Fin a) (Fin b) = rnd (a * b)"
| "fmul NaN _ = NaN"
| "fmul _ NaN = NaN"
| "fmul (Fin a) y = (if a = 0 then NaN else if 0 < a then y else fneg y)"
| "fmul x (Fin b) = (if b = 0 then NaN else if 0 < b then x else fneg x)"
| "fmul x y = (if x = y then PInf else NInf)"

text \<open>Python's \<^verbatim>\<open>/\<close> raises ZeroDivisionError on a zero divisor, whatever the dividend.\<close>

fun fdiv :: "pyfloat \<Rightarrow> pyfloat \<Rightarrow> pyfloat option" where
  "fdiv x (Fin b) =
     (if b = 0 then None
      else Some (case x of Fin a \<Rightarrow> rnd (a / b) | NaN \<Rightarrow> NaN
                 | _ \<Rightarrow> if 0 < b then x else fneg x))"
| "fdiv _ NaN = Some NaN"
| "fdiv NaN _ = Some NaN"
| "fdiv (Fin a) _ = Some (Fin 0)"
| "fdiv _ _ = Some NaN"

text \<open>Comparisons: every comparison with NaN is false, except \<^verbatim>\<open>!=\<close>.\<close>

fun flt :: "pyfloat \<Rightarrow> pyfloat \<Rightarrow> bool" where
  "flt (Fin a) (Fin b) = (a < b)"
| "flt NaN _ = False"
| "flt _ NaN = False"
| "flt NInf y = (y \<noteq> NInf)"
| "flt x PInf = (x \<noteq> PInf)"
| "flt _ _ = False"

definition feq :: "pyfloat \<Rightarrow> pyfloat \<Rightarrow> bool" where
  "feq x y = (x = y \<and> x \<noteq> NaN)"

definition fne :: "pyfloat \<Rightarrow> pyfloat \<Rightarrow> bool" where
  "fne x y = (\<not> feq x y)"

definition fgt :: "pyfloat \<Rightarrow> pyfloat \<Rightarrow> bool" where
  "fgt x y = flt y x"

definition fge :: "pyfloat \<Rightarrow> pyfloat \<Rightarrow> bool" where
  "fge x y = (flt y x \<or> feq x y)"

text \<open>
  Conversions between \<^verbatim>\<open>int\<close> and \<^verbatim>\<open>float\<close>. An int operand of a float
  operation is converted first and raises OverflowError when it is too large;
  \<^verbatim>\<open>math.floor\<close>, \<^verbatim>\<open>math.ceil\<close> and \<^verbatim>\<open>int\<close> raise on NaN and the infinities.
\<close>

definition float_of_int :: "int \<Rightarrow> pyfloat option" where
  "float_of_int i = (case rnd (of_int i) of Fin r \<Rightarrow> Some (Fin r) | _ \<Rightarrow> None)"

fun math_floor :: "pyfloat \<Rightarrow> int option" where
  "math_floor (Fin r) = Some \<lfloor>r\<rfloor>"
| "math_floor _ = None"

fun math_ceil :: "pyfloat \<Rightarrow> int option" where
  "math_ceil (Fin r) = Some \<lceil>r\<rceil>"
| "math_ceil _ = None"

fun py_int :: "pyfloat \<Rightarrow> int option" where
  "py_int (Fin r) = Some (if 0 \<le> r then \<lfloor>r\<rfloor> else \<lceil>r\<rceil>)"
| "py_int _ = None"

section \<open>Python builtins on lists\<close>

text \<open>\<^verbatim>\<open>xs[i]\<close>: a negative index counts from the end, an index out of range raises.\<close>

definition py_index :: "'a list \<Rightarrow> int \<Rightarrow> 'a option" where
  "py_index xs i =
     (let n = int (length xs); j = (if i < 0 then n + i else i)
      in if 0 \<le> j \<and> j < n then Some (xs ! nat j) else None)"

text \<open>
  \<^verbatim>\<open>max(a, b)\<close> keeps its first argument unless the second is greater;
  \<^verbatim>\<open>max(vals)\<close> does the same along the list and raises on the empty list.
\<close>

definition py_max2 :: "pyfloat \<Rightarrow> pyfloat \<Rightarrow> pyfloat" where
  "py_max2 a b = (if fgt b a then b else a)"

fun py_max :: "pyfloat list \<Rightarrow> pyfloat option" where
  "py_max [] = None"
| "py_max (x # xs) = Some (foldl py_max2 x xs)"

text \<open>
  \<^verbatim>\<open>sum(vals)\<close>: the floats added from the left, starting from zero. (CPython from
  3.12 on carries a compensation term besides; no statement below depends on the low
  bits of a sum.)
\<close>

definition py_sum :: "pyfloat list \<Rightarrow> pyfloat" where
  "py_sum vals = foldl fadd (Fin 0) vals"

text \<open>
  \<^verbatim>\<open>sorted\<close> and \<^verbatim>\<open>list.sort\<close> are stable and compare with \<^verbatim>\<open><\<close> only (on the
  keys, when a key function is given): an element is placed before the first later
  element that is not smaller than it. Where \<^verbatim>\<open><\<close> orders the keys totally (floats
  without NaN), this is what every stable sort returns.
\<close>

fun insort_lt :: "('k \<Rightarrow> 'k \<Rightarrow> bool) \<Rightarrow> ('a \<Rightarrow> 'k) \<Rightarrow> 'a \<Rightarrow> 'a list \<Rightarrow> 'a list" where
  "insort_lt lt key x [] = [x]"
| "insort_lt lt key x (y # ys) =
     (if lt (key y) (key x) then y # insort_lt lt key x ys else x # y # ys)"

definition py_sort_key :: "('k \<Rightarrow> 'k \<Rightarrow> bool) \<Rightarrow> ('a \<Rightarrow> 'k) \<Rightarrow> 'a list \<Rightarrow> 'a list" where
  "py_sort_key lt key xs = foldr (insort_lt lt key) xs []"

definition py_sorted :: "pyfloat list \<Rightarrow> pyfloat list" where
  "py_sorted vals = py_sort_key flt (\<lambda>v. v) vals"

section \<open>Records of the core\<close>

text \<open>
  The only operation the engine applies to a severity, a criticality, a threshold or a
  number of a rule's \<^verbatim>\<open>calc\<close> is \<^verbatim>\<open>float(v)\<close>. Such a field is therefore
  modelled by what \<^verbatim>\<open>float\<close> does with it: \<open>Num x\<close> is any value that converts, to
  \<open>x\<close> (a float, an int, a numeric string); \<open>NonNum\<close> is any value on which
  \<^verbatim>\<open>float\<close> raises (\<^verbatim>\<open>None\<close>, a list, a string such as \<^verbatim>\<open>"high"\<close>).
  A result \<open>None\<close> of a function below is an exception leaving that function.
\<close>

datatype pyval = Num pyfloat | NonNum

fun py_float :: "pyval \<Rightarrow> pyfloat option" where
  "py_float (Num x) = Some x"
| "py_float NonNum = None"

definition to_num :: "pyval \<Rightarrow> pyfloat \<Rightarrow> pyfloat" where
  "to_num v d = (case py_float v of Some x \<Rightarrow> x | None \<Rightarrow> d)"

text \<open>\<^verbatim>\<open>d.get(key, default)\<close>, on a field that is \<open>None\<close> when the key is absent.\<close>

definition dict_get :: "'a option \<Rightarrow> 'a \<Rightarrow> 'a" where
  "dict_get field dflt = (case field of None \<Rightarrow> dflt | Some v \<Rightarrow> v)"

text \<open>
  Assets and events are the dicts the stores hold, with the keys \<^verbatim>\<open>AssetStore.load\<close>
  and \<^verbatim>\<open>EventStore.load\<close> write. The opaque \<^verbatim>\<open>data\<close> of an event is never read
  and is left out.
\<close>

record asset =
  asset_id :: string
  asset_name :: string
  asset_type :: string
  asset_tags :: "string list"
  asset_criticality :: "pyval option"

record event =
  event_id :: string
  event_ts :: int
  event_asset :: "string option"
  event_type :: string
  event_severity :: "pyval option"
  event_labels :: "string list"

text \<open>
  \<^verbatim>\<open>Rule.when\<close> and \<^verbatim>\<open>Rule.calc\<close>: one optional field for each key the code looks
  up; the bonus mappings are dicts, iterated in insertion order.
\<close>

record when_cond =
  when_event_type :: "string list option"
  when_asset_type :: "string list option"
  when_asset_tags_any :: "string list option"
  when_event_labels_any :: "string list option"
  when_event_severity_gte :: "pyval option"

record calc_spec =
  calc_base :: "pyval option"
  calc_mul_severity :: "pyval option"
  calc_mul_criticality :: "pyval option"
  calc_if_label_bonus :: "(string \<times> pyval) list option"
  calc_if_tag_bonus :: "(string \<times> pyval) list option"

record rule =
  rule_id :: string
  rule_name :: string
  rule_weight :: pyfloat
  rule_when :: when_cond
  rule_calc :: calc_spec

record policy =
  policy_id :: string
  policy_name :: string
  policy_version :: string
  policy_rules :: "rule list"

record applied_entry =
  applied_rule :: string
  applied_name :: string
  applied_score :: pyfloat

record score_result =
  result_event :: string
  result_asset :: string
  result_score :: pyfloat
  result_applied :: "applied_entry list"
  result_ts :: int

section \<open>AssetStore\<close>

type_synonym AssetStore = "string \<rightharpoonup> asset"

text \<open>
  \<^verbatim>\<open>AssetStore.get(aid)\<close> is \<^verbatim>\<open>self.assets.get(aid)\<close>; the argument is
  \<^verbatim>\<open>e.get('asset')\<close>, which is \<^verbatim>\<open>None\<close> for an event without that key, and no key
  of the store is \<^verbatim>\<open>None\<close>.
\<close>

fun AssetStore_get :: "AssetStore \<Rightarrow> string option \<Rightarrow> asset option" where
  "AssetStore_get assets None = None"
| "AssetStore_get assets (Some aid) = assets aid"

section \<open>Rule\<close>

definition Rule_match :: "rule \<Rightarrow> asset \<Rightarrow> event \<Rightarrow> bool option" where
  "Rule_match r a e =
     (let cond = rule_when r;
          ok1 = (case when_event_type cond of None \<Rightarrow> True
                 | Some ts \<Rightarrow> event_type e \<in> set ts);
          ok2 = (case when_asset_type cond of None \<Rightarrow> ok1
                 | Some ts \<Rightarrow> ok1 \<and> asset_type a \<in> set ts);
          ok3 = (case when_asset_tags_any cond of None \<Rightarrow> ok2
                 | Some ts \<Rightarrow> if set (asset_tags a) \<inter> set ts = {} then False else ok2);
          ok4 = (case when_event_labels_any cond of None \<Rightarrow> ok3
                 | Some ls \<Rightarrow> if set (event_labels e) \<inter> set ls = {} then False else ok3)
      in case when_event_severity_gte cond of None \<Rightarrow> Some ok4
         | Some t \<Rightarrow>
             if ok4 then do {
               th \<leftarrow> py_float t;
               Some (fge (to_num (dict_get (event_severity e) (Num (Fin 0))) (Fin 0)) th)
             } else Some False)"

text \<open>
  The two bonus loops of \<^verbatim>\<open>Rule.score\<close>: \<^verbatim>\<open>float(v)\<close> is evaluated only for the
  entries whose key is present.
\<close>

fun bonus_loop :: "(string \<times> pyval) list \<Rightarrow> string list \<Rightarrow> pyfloat \<Rightarrow> pyfloat option" where
  "bonus_loop [] present bonus = Some bonus"
| "bonus_loop ((k, v) # items) present bonus =
     (if k \<in> set present
      then do { x \<leftarrow> py_float v; bonus_loop items present (fadd bonus x) }
      else bonus_loop items present bonus)"

definition Rule_score :: "rule \<Rightarrow> asset \<Rightarrow> event \<Rightarrow> pyfloat option" where
  "Rule_score r a e = (let c = rule_calc r in do {
     base \<leftarrow> py_float (dict_get (calc_base c) (Num (Fin 0)));
     sev \<leftarrow> py_float (dict_get (event_severity e) (Num (Fin 0)));
     crit \<leftarrow> py_float (dict_get (asset_criticality a) (Num (Fin 0)));
     mul_sev \<leftarrow> py_float (dict_get (calc_mul_severity c) (Num (Fin 0)));
     mul_crit \<leftarrow> py_float (dict_get (calc_mul_criticality c) (Num (Fin 0)));
     bonus1 \<leftarrow> (case calc_if_label_bonus c of None \<Rightarrow> Some (Fin 0)
                | Some items \<Rightarrow> bonus_loop items (event_labels e) (Fin 0));
     bonus \<leftarrow> (case calc_if_tag_bonus c of None \<Rightarrow> Some bonus1
               | Some items \<Rightarrow> bonus_loop items (asset_tags a) bonus1);
     let s = fadd (fadd (fadd base (fmul sev mul_sev)) (fmul crit mul_crit)) bonus;
     Some (py_max2 (Fin 0) (fmul s (rule_weight r)))
   })"

section \<open>RiskEngine\<close>

text \<open>
  The engine object: the three inputs and the two accumulators, \<^verbatim>\<open>results\<close> and the
  \<^verbatim>\<open>defaultdict(list)\<close> \<^verbatim>\<open>by_asset\<close>, a dict in insertion order.
\<close>

record engine =
  eng_assets :: AssetStore
  eng_events :: "event list"
  eng_policy :: policy
  eng_results :: "score_result list"
  eng_by_asset :: "(string \<times> pyfloat list) list"

definition RiskEngine :: "AssetStore \<Rightarrow> event list \<Rightarrow> policy \<Rightarrow> engine" where
  "RiskEngine assets events policy =
     \<lparr>eng_assets = assets, eng_events = events, eng_policy = policy,
      eng_results = [], eng_by_asset = []\<rparr>"

text \<open>\<^verbatim>\<open>by_asset[aid].append(total)\<close>: a key not yet present is added at the end.\<close>

fun by_asset_append :: "string \<Rightarrow> pyfloat \<Rightarrow> (string \<times> pyfloat list) list
    \<Rightarrow> (string \<times> pyfloat list) list" where
  "by_asset_append aid tot [] = [(aid, [tot])]"
| "by_asset_append aid tot ((k, vals) # rest) =
     (if k = aid then (k, vals @ [tot]) # rest
      else (k, vals) # by_asset_append aid tot rest)"

text \<open>The inner loop of \<^verbatim>\<open>evaluate\<close> over the policy's rules, on \<^verbatim>\<open>(total, applied)\<close>.\<close>

fun apply_rules :: "rule list \<Rightarrow> asset \<Rightarrow> event \<Rightarrow> pyfloat \<times> applied_entry list
    \<Rightarrow> (pyfloat \<times> applied_entry list) option" where
  "apply_rules [] a e acc = Some acc"
| "apply_rules (r # rs) a e (tot, applied) = do {
     m \<leftarrow> Rule_match r a e;
     if m then do {
       val \<leftarrow> Rule_score r a e;
       if fne val (Fin 0)
       then apply_rules rs a e
              (fadd tot val,
               applied @ [\<lparr>applied_rule = rule_id r, applied_name = rule_name r,
                            applied_score = val\<rparr>])
       else apply_rules rs a e (tot, applied)
     } else apply_rules rs a e (tot, applied)
   }"

text \<open>
  The outer loop over the events. \<^verbatim>\<open>if not a: continue\<close> skips an event whose asset
  is not in the store (a stored asset is a dict with keys, hence true).
\<close>

fun evaluate_loop :: "event list \<Rightarrow> engine \<Rightarrow> engine option" where
  "evaluate_loop [] eng = Some eng"
| "evaluate_loop (e # es) eng =
     (case AssetStore_get (eng_assets eng) (event_asset e) of
        None \<Rightarrow> evaluate_loop es eng
      | Some a \<Rightarrow> do {
          (tot, applied) \<leftarrow> apply_rules (policy_rules (eng_policy eng)) a e (Fin 0, []);
          evaluate_loop es
            (eng\<lparr>eng_results := eng_results eng @
                    [\<lparr>result_event = event_id e, result_asset = asset_id a,
                      result_score = tot, result_applied = applied,
                      result_ts = event_ts e\<rparr>],
                  eng_by_asset := by_asset_append (asset_id a) tot (eng_by_asset eng)\<rparr>)
        })"

definition evaluate :: "engine \<Rightarrow> engine option" where
  "evaluate eng = evaluate_loop (eng_events eng) eng"

text \<open>
  \<^verbatim>\<open>percentile(vals, p)\<close>. The int \<^verbatim>\<open>len(s) - 1\<close> and the ints \<^verbatim>\<open>f\<close> and
  \<^verbatim>\<open>c\<close> are converted to float where they meet a float; \<open>p\<close> is the percentile as
  a float (\<^verbatim>\<open>aggregate\<close> passes 95 and 99).
\<close>

definition percentile :: "pyfloat list \<Rightarrow> pyfloat \<Rightarrow> pyfloat option" where
  "percentile vals p = (let s = py_sorted vals in
     if s = [] then Some (Fin 0)
     else do {
       n1 \<leftarrow> float_of_int (int (length s) - 1);
       q \<leftarrow> fdiv p (Fin 100);
       let k = fmul n1 q;
       f \<leftarrow> math_floor k;
       c \<leftarrow> math_ceil k;
       if f = c then do { i \<leftarrow> py_int k; py_index s i }
       else do {
         sf \<leftarrow> py_index s f;
         cf \<leftarrow> float_of_int c;
         let d0 = fmul sf (fsub cf k);
         sc \<leftarrow> py_index s c;
         ff \<leftarrow> float_of_int f;
         let d1 = fmul sc (fsub k ff);
         Some (fadd d0 d1)
       }
     })"

record asset_aggregate =
  agg_count :: nat
  agg_sum :: pyfloat
  agg_avg :: pyfloat
  agg_max :: pyfloat
  agg_p95 :: pyfloat
  agg_p99 :: pyfloat

text \<open>
  The dict literal \<^verbatim>\<open>aggregate\<close> builds for one asset from its non-empty score
  list, and the loop over \<^verbatim>\<open>by_asset.items()\<close>; \<^verbatim>\<open>agg[aid] = ...\<close> is the dict
  assignment \<open>AList.update\<close>.
\<close>

definition aggregate_entry :: "pyfloat list \<Rightarrow> asset_aggregate option" where
  "aggregate_entry vals = do {
     n \<leftarrow> float_of_int (int (length vals));
     avg \<leftarrow> fdiv (py_sum vals) n;
     mx \<leftarrow> py_max vals;
     p95 \<leftarrow> percentile vals (Fin 95);
     p99 \<leftarrow> percentile vals (Fin 99);
     Some \<lparr>agg_count = length vals, agg_sum = py_sum vals, agg_avg = avg,
           agg_max = mx, agg_p95 = p95, agg_p99 = p99\<rparr>
   }"

fun aggregate_loop :: "(string \<times> pyfloat list) list \<Rightarrow> (string \<times> asset_aggregate) list
    \<Rightarrow> (string \<times> asset_aggregate) list option" where
  "aggregate_loop [] agg = Some agg"
| "aggregate_loop ((aid, vals) # rest) agg =
     (if vals = [] then aggregate_loop rest agg
      else do {
        entry \<leftarrow> aggregate_entry vals;
        aggregate_loop rest (AList.update aid entry agg)
      })"

definition aggregate :: "engine \<Rightarrow> (string \<times> asset_aggregate) list option" where
  "aggregate eng = aggregate_loop (eng_by_asset eng) []"

section \<open>The built-in policy\<close>

text \<open>
  The \<^verbatim>\<open>Policy\<close> that \<^verbatim>\<open>load_or_default\<close> builds from the dict
  \<^verbatim>\<open>bootstrap_policy()\<close> returns: \<^verbatim>\<open>Rule.__init__\<close> copies \<^verbatim>\<open>id\<close>, \<^verbatim>\<open>name\<close>,
  \<^verbatim>\<open>when\<close> and \<^verbatim>\<open>calc\<close> and converts \<^verbatim>\<open>weight\<close> to float.
\<close>

definition no_when :: when_cond where
  "no_when = \<lparr>when_event_type = None, when_asset_type = None, when_asset_tags_any = None,
              when_event_labels_any = None, when_event_severity_gte = None\<rparr>"

definition no_calc :: calc_spec where
  "no_calc = \<lparr>calc_base = None, calc_mul_severity = None, calc_mul_criticality = None,
              calc_if_label_bonus = None, calc_if_tag_bonus = None\<rparr>"

definition bootstrap_policy :: policy where
  "bootstrap_policy =
     \<lparr>policy_id = ''default-policy'', policy_name = ''Default Risk Policy'',
      policy_version = ''1.0'',
      policy_rules =
        [\<lparr>rule_id = ''sev-asset'', rule_name = ''Severity and criticality'',
          rule_weight = Fin 1,
          rule_when = no_when\<lparr>when_event_type := Some [''alert'', ''anomaly'', ''incident'']\<rparr>,
          rule_calc = no_calc\<lparr>calc_base := Some (Num (Fin 0)),
                              calc_mul_severity := Some (Num (Fin 60)),
                              calc_mul_criticality := Some (Num (Fin 50))\<rparr>\<rparr>,
         \<lparr>rule_id = ''label-bonus'', rule_name = ''Label bonus'',
          rule_weight = Fin 1,
          rule_when = no_when\<lparr>when_event_labels_any :=
                                Some [''privilege_escalation'', ''exfil'', ''lateral'']\<rparr>,
          rule_calc = no_calc\<lparr>calc_base := Some (Num (Fin 0)),
                              calc_if_label_bonus :=
                                Some [(''privilege_escalation'', Num (Fin 30)),
                                      (''exfil'', Num (Fin 40)),
                                      (''lateral'', Num (Fin 20))]\<rparr>\<rparr>,
         \<lparr>rule_id = ''tag-bonus'', rule_name = ''Asset tag bonus'',
          rule_weight = Fin 1,
          rule_when = no_when\<lparr>when_asset_tags_any := Some [''prod'', ''pci'', ''pii'']\<rparr>,
          rule_calc = no_calc\<lparr>calc_base := Some (Num (Fin 10)),
                              calc_if_tag_bonus :=
                                Some [(''prod'', Num (Fin 20)), (''pci'', Num (Fin 25)),
                                      (''pii'', Num (Fin 25))]\<rparr>\<rparr>]\<rparr>"

section \<open>The report\<close>

record summary_row =
  row_asset :: string
  row_name :: string
  row_type :: string
  row_avg :: pyfloat
  row_max :: pyfloat
  row_p95 :: pyfloat
  row_p99 :: pyfloat
  row_count :: nat

record report =
  report_generated_at :: int
  report_authors :: string
  report_summary :: "summary_row list"
  report_details :: "score_result list"

text \<open>
  The loop of \<^verbatim>\<open>export_report\<close> over \<^verbatim>\<open>agg.items()\<close>: an id that is not in
  \<^verbatim>\<open>assets\<close> gets the stand-in \<^verbatim>\<open>{'id': aid, 'name': aid}\<close>.
\<close>

definition summary_row_of :: "AssetStore \<Rightarrow> string \<times> asset_aggregate \<Rightarrow> summary_row" where
  "summary_row_of assets item = (case item of (aid, metrics) \<Rightarrow>
     (case assets aid of
        Some a \<Rightarrow>
          \<lparr>row_asset = asset_id a, row_name = asset_name a, row_type = asset_type a,
           row_avg = agg_avg metrics, row_max = agg_max metrics, row_p95 = agg_p95 metrics,
           row_p99 = agg_p99 metrics, row_count = agg_count metrics\<rparr>
      | None \<Rightarrow>
          \<lparr>row_asset = aid, row_name = aid, row_type = [],
           row_avg = agg_avg metrics, row_max = agg_max metrics, row_p95 = agg_p95 metrics,
           row_p99 = agg_p99 metrics, row_count = agg_count metrics\<rparr>))"

text \<open>
  The sort key \<^verbatim>\<open>(-x['max'], -x['avg'], x['asset'])\<close> and Python's \<^verbatim>\<open><\<close> on such
  tuples: the first components that differ (by \<^verbatim>\<open>!=\<close>) decide.
\<close>

definition summary_key :: "summary_row \<Rightarrow> pyfloat \<times> pyfloat \<times> string" where
  "summary_key x = (fneg (row_max x), fneg (row_avg x), row_asset x)"

fun key_lt :: "pyfloat \<times> pyfloat \<times> string \<Rightarrow> pyfloat \<times> pyfloat \<times> string \<Rightarrow> bool" where
  "key_lt (m1, a1, s1) (m2, a2, s2) =
     (if fne m1 m2 then flt m1 m2 else if fne a1 a2 then flt a1 a2 else s1 < s2)"

text \<open>
  \<^verbatim>\<open>export_report\<close> returns the dict it writes; \<open>generated_at\<close> is what \<^verbatim>\<open>now()\<close>
  returned.
\<close>

definition export_report :: "int \<Rightarrow> engine \<Rightarrow> AssetStore \<Rightarrow> report option" where
  "export_report generated_at eng assets = do {
     agg \<leftarrow> aggregate eng;
     Some \<lparr>report_generated_at = generated_at,
           report_authors = ''t.me/Bengamin_Button t.me/XillenAdapter'',
           report_summary = py_sort_key key_lt summary_key (map (summary_row_of assets) agg),
           report_details = eng_results eng\<rparr>
   }"

section \<open>AssetStore.load\<close>

text \<open>
  The records of the \<^verbatim>\<open>assets\<close> array that \<^verbatim>\<open>AssetStore.load\<close> reads, a field
  being \<open>None\<close> when its key is absent, and the loop that stores them. \<open>uuids i\<close> is
  the string the \<open>i\<close>-th call of \<^verbatim>\<open>nid()\<close> returns; the loop state is the number of
  calls made and the store.
\<close>

record raw_asset =
  raw_id :: "string option"
  raw_name :: "string option"
  raw_type :: "string option"
  raw_tags :: "string list option"
  raw_criticality :: "pyval option"

fun AssetStore_load :: "(nat \<Rightarrow> string) \<Rightarrow> raw_asset list \<Rightarrow> nat \<times> AssetStore
    \<Rightarrow> (nat \<times> AssetStore) option" where
  "AssetStore_load uuids [] st = Some st"
| "AssetStore_load uuids (a # rest) (i, assets) =
     (let (aid, i') = (if dict_get (raw_id a) [] \<noteq> [] then (dict_get (raw_id a) [], i)
                       else (uuids i, Suc i))
      in do {
        crit \<leftarrow> py_float (dict_get (raw_criticality a) (Num (rnd (1 / 2))));
        AssetStore_load uuids rest
          (i', assets(aid \<mapsto>
             \<lparr>asset_id = aid, asset_name = dict_get (raw_name a) aid,
              asset_type = dict_get (raw_type a) [], asset_tags = dict_get (raw_tags a) [],
              asset_criticality = Some (Num crit)\<rparr>))
      })"

text \<open>What \<^verbatim>\<open>load\<close> establishes: every asset is stored under its own id.\<close>

definition keyed_by_id :: "AssetStore \<Rightarrow> bool" where
  "keyed_by_id assets = (\<forall>k a. assets k = Some a \<longrightarrow> asset_id a = k)"

section \<open>Notions used in the statements\<close>

text \<open>A float that is \<^verbatim>\<open>>= 0\<close> in Python: a non-negative rational or \<^verbatim>\<open>inf\<close>.\<close>

fun nonneg :: "pyfloat \<Rightarrow> bool" where
  "nonneg (Fin r) = (0 \<le> r)"
| "nonneg PInf = True"
| "nonneg _ = False"

text \<open>A field on which \<^verbatim>\<open>float\<close> does not raise, absent or present.\<close>

definition numeric :: "pyval option \<Rightarrow> bool" where
  "numeric field = (field \<noteq> Some NonNum)"

text \<open>
  The bonuses of one bonus mapping that apply: the values of the entries whose key is
  among the labels (or the tags) present, in the order of the mapping; the field is
  \<open>None\<close> when the rule's \<^verbatim>\<open>calc\<close> has no such mapping.
\<close>

definition present_bonuses :: "(string \<times> pyval) list option \<Rightarrow> string list \<Rightarrow> pyval list" where
  "present_bonuses field present = (case field of None \<Rightarrow> []
     | Some items \<Rightarrow> map snd (filter (\<lambda>kv. fst kv \<in> set present) items))"

text \<open>\<^verbatim>\<open>float(v)\<close> of every value of a list, raising when one of them is not numeric.\<close>

fun floats_of :: "pyval list \<Rightarrow> pyfloat list option" where
  "floats_of [] = Some []"
| "floats_of (v # vs) = do { x \<leftarrow> py_float v; xs \<leftarrow> floats_of vs; Some (x # xs) }"

text \<open>\<^verbatim>\<open>by_asset[aid]\<close>, read without inserting: the scores recorded for an asset.\<close>

definition by_asset_get :: "(string \<times> pyfloat list) list \<Rightarrow> string \<Rightarrow> pyfloat list" where
  "by_asset_get by_asset aid = (case map_of by_asset aid of None \<Rightarrow> [] | Some vals \<Rightarrow> vals)"

text \<open>
  The ScoreResults one pass of \<^verbatim>\<open>evaluate\<close> produces, as a function of the three
  inputs alone; \<open>evaluate_loop_eq\<close> below relates the loop to it.
\<close>

fun event_results :: "AssetStore \<Rightarrow> policy \<Rightarrow> event list \<Rightarrow> score_result list option" where
  "event_results assets pol [] = Some []"
| "event_results assets pol (e # es) =
     (case AssetStore_get assets (event_asset e) of
        None \<Rightarrow> event_results assets pol es
      | Some a \<Rightarrow> do {
          (tot, applied) \<leftarrow> apply_rules (policy_rules pol) a e (Fin 0, []);
          rs \<leftarrow> event_results assets pol es;
          Some (\<lparr>result_event = event_id e, result_asset = asset_id a,
                 result_score = tot, result_applied = applied,
                 result_ts = event_ts e\<rparr> # rs)
        })"

definition record_scores :: "score_result list \<Rightarrow> (string \<times> pyfloat list) list
    \<Rightarrow> (string \<times> pyfloat list) list" where
  "record_scores rs by_asset =
     fold (\<lambda>r. by_asset_append (result_asset r) (result_score r)) rs by_asset"

text \<open>The scores of the results of one asset, in result order.\<close>

definition scores_of :: "score_result list \<Rightarrow> string \<Rightarrow> pyfloat list" where
  "scores_of rs aid = map result_score (filter (\<lambda>r. result_asset r = aid) rs)"

text \<open>
  The percentile as the specification words it: sort ascending, \<open>k = (n - 1) * p / 100\<close>
  (grouped as the product of \<open>n - 1\<close> and \<open>p / 100\<close>), \<open>f = floor k\<close>, \<open>c = ceil k\<close>;
  \<open>sorted[k]\<close> when \<open>f = c\<close>, otherwise \<open>sorted[f] * (c - k) + sorted[c] * (k - f)\<close>;
  zero on the empty list.
\<close>

definition percentile_spec :: "pyfloat list \<Rightarrow> rat \<Rightarrow> pyfloat" where
  "percentile_spec vals p = (let sorted = py_sorted vals; n = length sorted in
     if n = 0 then Fin 0
     else (case fmul (Fin (of_nat (n - 1))) (rnd (p / 100)) of
        Fin k \<Rightarrow>
          (let f = \<lfloor>k\<rfloor>; c = \<lceil>k\<rceil> in
           if f = c then sorted ! nat f
           else fadd (fmul (sorted ! nat f) (fsub (Fin (of_int c)) (Fin k)))
                     (fmul (sorted ! nat c) (fsub (Fin k) (Fin (of_int f)))))
      | _ \<Rightarrow> NaN))"

text \<open>
  The order of the summary as the specification words it: descending max, then
  descending average, then ascending asset id.
\<close>

definition summary_before :: "summary_row \<Rightarrow> summary_row \<Rightarrow> bool" where
  "summary_before x y =
     (flt (row_max y) (row_max x) \<or>
      (row_max x = row_max y \<and>
       (flt (row_avg y) (row_avg x) \<or> (row_avg x = row_avg y \<and> row_asset x \<le> row_asset y))))"

text \<open>
  The accumulation \<^verbatim>\<open>total = 0.0\<close>, then \<^verbatim>\<open>total += val\<close> for each value in turn.
\<close>

definition running_total :: "pyfloat list \<Rightarrow> pyfloat" where
  "running_total vals = foldl fadd (Fin 0) vals"

text \<open>
  A running float sum in which no addition rounds: every partial sum of the list, from
  the rational \<open>t\<close> on, is a binary64 value.
\<close>

fun sums_exact :: "rat \<Rightarrow> pyfloat list \<Rightarrow> bool" where
  "sums_exact t [] = True"
| "sums_exact t (Fin v # vs) = (rnd (t + v) = Fin (t + v) \<and> sums_exact (t + v) vs)"
| "sums_exact t (_ # vs) = False"

text \<open>
  Two ScoreResults of the same event that differ at most in the order of their applied
  entries, each score being the float sum of its applied scores in its own order; the
  scores are equal when neither sum rounds.
\<close>

definition same_up_to_order :: "score_result \<Rightarrow> score_result \<Rightarrow> bool" where
  "same_up_to_order res res' =
    (result_event res' = result_event res \<and> result_asset res' = result_asset res \<and>
     result_ts res' = result_ts res \<and>
     mset (result_applied res') = mset (result_applied res) \<and>
     result_score res = running_total (map applied_score (result_applied res)) \<and>
     result_score res' = running_total (map applied_score (result_applied res')) \<and>
     (sums_exact 0 (map applied_score (result_applied res)) \<and>
      sums_exact 0 (map applied_score (result_applied res'))
      \<longrightarrow> result_score res' = result_score res))"

section \<open>Sample data\<close>

text \<open>
  The asset \<^verbatim>\<open>srv-1\<close> and the event \<^verbatim>\<open>e1\<close> of the \<^verbatim>\<open>gen\<close> command, as the stores
  hold them after loading; \<open>ts\<close> is the time stamp of the event. The literals
  \<^verbatim>\<open>0.9\<close> and \<^verbatim>\<open>0.8\<close> denote the nearest floats.
\<close>

definition srv_1 :: asset where
  "srv_1 = \<lparr>asset_id = ''srv-1'', asset_name = ''srv-1'', asset_type = ''vm'',
            asset_tags = [''prod'', ''pci''], asset_criticality = Some (Num (rnd (9 / 10)))\<rparr>"

definition e1 :: "int \<Rightarrow> event" where
  "e1 ts = \<lparr>event_id = ''e1'', event_ts = ts, event_asset = Some ''srv-1'',
            event_type = ''alert'', event_severity = Some (Num (rnd (4 / 5))),
            event_labels = [''exfil'']\<rparr>"

text \<open>A rule that matches everything and scores the constant \<open>b\<close>.\<close>

definition const_rule :: "string \<Rightarrow> rat \<Rightarrow> rule" where
  "const_rule name b =
     \<lparr>rule_id = name, rule_name = name, rule_weight = Fin 1, rule_when = no_when,
      rule_calc = no_calc\<lparr>calc_base := Some (Num (Fin b))\<rparr>\<rparr>"

text \<open>
  A rule of weight \<open>w\<close> with base 5, a negative bonus for the label \<^verbatim>\<open>exfil\<close>, a
  non-numeric bonus for the label \<^verbatim>\<open>lateral\<close>, and bonuses for three tags.
\<close>

definition bonus_rule :: "rat \<Rightarrow> rule" where
  "bonus_rule w =
     \<lparr>rule_id = ''bonus'', rule_name = ''bonus'', rule_weight = Fin w, rule_when = no_when,
      rule_calc = no_calc\<lparr>calc_base := Some (Num (Fin 5)),
        calc_if_label_bonus := Some [(''exfil'', Num (Fin (- 40))), (''lateral'', NonNum)],
        calc_if_tag_bonus := Some [(''prod'', Num (Fin 20)), (''pii'', Num (Fin 100)),
                                   (''pci'', Num (Fin 10))]\<rparr>\<rparr>"

text \<open>A policy with the given rules.\<close>

definition policy_of :: "rule list \<Rightarrow> policy" where
  "policy_of rules =
     \<lparr>policy_id = ''p'', policy_name = ''p'', policy_version = ''1.0'', policy_rules = rules\<rparr>"

text \<open>
  The sorting scenario: assets \<^verbatim>\<open>A\<close> and \<^verbatim>\<open>B\<close>, one rule scoring ten times the
  severity, and three events giving \<^verbatim>\<open>B\<close> the scores 10 and 0 (max 10, average 5)
  and then \<^verbatim>\<open>A\<close> the score 10 (max 10, average 10).
\<close>

definition asset_A :: asset where
  "asset_A = \<lparr>asset_id = ''A'', asset_name = ''A'', asset_type = [], asset_tags = [],
              asset_criticality = Some (Num (rnd (1 / 2)))\<rparr>"

definition asset_B :: asset where
  "asset_B = \<lparr>asset_id = ''B'', asset_name = ''B'', asset_type = [], asset_tags = [],
              asset_criticality = Some (Num (rnd (1 / 2)))\<rparr>"

definition severity_event :: "string \<Rightarrow> string \<Rightarrow> rat \<Rightarrow> event" where
  "severity_event eid aid sev =
     \<lparr>event_id = eid, event_ts = 0, event_asset = Some aid, event_type = [],
      event_severity = Some (Num (Fin sev)), event_labels = []\<rparr>"

definition severity_rule :: rule where
  "severity_rule =
     \<lparr>rule_id = ''sev'', rule_name = ''sev'', rule_weight = Fin 1, rule_when = no_when,
      rule_calc = no_calc\<lparr>calc_mul_severity := Some (Num (Fin 10))\<rparr>\<rparr>"

definition sorting_engine :: engine where
  "sorting_engine = RiskEngine [''A'' \<mapsto> asset_A, ''B'' \<mapsto> asset_B]
     [severity_event ''b1'' ''B'' 1, severity_event ''b2'' ''B'' 0, severity_event ''a1'' ''A'' 1]
     (policy_of [severity_rule])"

definition sorting_report :: "report option" where
  "sorting_report = Option.bind (evaluate sorting_engine)
     (\<lambda>eng. export_report 0 eng [''A'' \<mapsto> asset_A, ''B'' \<mapsto> asset_B])"

section \<open>One iteration of the inner loop\<close>

text \<open>
  What one rule contributes to \<^verbatim>\<open>applied\<close>: nothing when it does not match or scores
  zero, else its entry; \<open>None\<close> when \<^verbatim>\<open>match\<close> or \<^verbatim>\<open>score\<close> raises. The lemma
  \<open>apply_rules_eq\<close> below relates the loop to it.
\<close>

definition rule_entry :: "rule \<Rightarrow> asset \<Rightarrow> event \<Rightarrow> applied_entry list option" where
  "rule_entry r a e = do {
     m \<leftarrow> Rule_match r a e;
     if m then do {
       val \<leftarrow> Rule_score r a e;
       Some (if fne val (Fin 0)
             then [\<lparr>applied_rule = rule_id r, applied_name = rule_name r,
                    applied_score = val\<rparr>]
             else [])
     } else Some []
   }"

fun rule_entries :: "rule list \<Rightarrow> asset \<Rightarrow> event \<Rightarrow> applied_entry list option" where
  "rule_entries [] a e = Some []"
| "rule_entries (r # rs) a e = do {
     en \<leftarrow> rule_entry r a e;
     ens \<leftarrow> rule_entries rs a e;
     Some (en @ ens)
   }"

section \<open>Properties of rounding\<close>

lemma bitlen_pos: "0 < n \<Longrightarrow> 1 \<le> bitlen n"
  by (simp add: bitlen_alt_def)

lemma bitlen_powi_bounds:
  assumes "0 < n"
  shows "(2::rat) powi (bitlen n - 1) \<le> of_int n" and "of_int n < (2::rat) powi (bitlen n)"
proof -
  have b: "1 \<le> bitlen n" using assms by (rule bitlen_pos)
  from bitlen_bounds[OF assms] have l: "2 ^ nat (bitlen n - 1) \<le> n" and u: "n < 2 ^ nat (bitlen n)"
    by auto
  have "(of_int (2 ^ nat (bitlen n - 1)) :: rat) \<le> of_int n" using l by (simp only: of_int_le_iff)
  then show "(2::rat) powi (bitlen n - 1) \<le> of_int n" using b by (simp add: power_int_def)
  have "(of_int n :: rat) < of_int (2 ^ nat (bitlen n))" using u by (simp only: of_int_less_iff)
  then show "of_int n < (2::rat) powi (bitlen n)" using b by (simp add: power_int_def)
qed

lemma powi_pos [simp]: "(0::rat) < 2 powi q"
  by (simp add: power_int_def)

lemma ilog2_bounds:
  assumes "0 < x"
  shows "2 powi (ilog2 x) \<le> x" and "x < 2 powi (ilog2 x + 1)"
proof -
  obtain n d where q: "quotient_of x = (n, d)" by (cases "quotient_of x")
  have d: "0 < d" using quotient_of_denom_pos[OF q] .
  have x: "x = of_int n / of_int d" using quotient_of_div[OF q] .
  have n: "0 < n" using assms d x by (simp add: zero_less_divide_iff)
  define e0 where "e0 = bitlen n - bitlen d"
  have dr: "(0::rat) < of_int d" using d by simp
  have lo: "(2::rat) powi (e0 - 1) \<le> x"
  proof -
    have "(2::rat) powi (e0 - 1) = 2 powi (bitlen n - 1) / 2 powi (bitlen d)"
      by (simp add: e0_def power_int_diff power_int_add algebra_simps)
    also have "\<dots> \<le> of_int n / 2 powi (bitlen d)"
      using bitlen_powi_bounds(1)[OF n] by (simp add: divide_right_mono)
    also have "\<dots> \<le> of_int n / of_int d"
      using bitlen_powi_bounds(2)[OF d] n dr by (intro divide_left_mono) auto
    finally show ?thesis by (simp add: x)
  qed
  have hi: "x < (2::rat) powi (e0 + 1)"
  proof -
    have "x = of_int n / of_int d" by (rule x)
    also have "\<dots> < 2 powi (bitlen n) / of_int d"
      using bitlen_powi_bounds(2)[OF n] dr by (simp add: divide_strict_right_mono)
    also have "\<dots> \<le> 2 powi (bitlen n) / 2 powi (bitlen d - 1)"
      using bitlen_powi_bounds(1)[OF d] dr by (intro divide_left_mono) (auto intro!: mult_pos_pos)
    also have "\<dots> = 2 powi (e0 + 1)"
      by (simp add: e0_def power_int_diff power_int_add algebra_simps)
    finally show ?thesis .
  qed
  have il: "ilog2 x = (if 2 powi e0 \<le> x then e0 else e0 - 1)"
    by (simp add: ilog2_def q e0_def Let_def)
  show "2 powi (ilog2 x) \<le> x" using lo by (simp add: il)
  show "x < 2 powi (ilog2 x + 1)" using hi by (simp add: il not_le)
qed

lemma ilog2_le:
  assumes "0 < x" "x \<le> 2 powi n"
  shows "ilog2 x \<le> n"
proof (rule ccontr)
  assume "\<not> ilog2 x \<le> n"
  then have "n < ilog2 x" by simp
  then have "(2::rat) powi n < 2 powi (ilog2 x)" by (intro power_int_strict_increasing) auto
  with ilog2_bounds(1)[OF assms(1)] assms(2) show False by simp
qed

lemma ilog2_ge:
  assumes "0 < x" "2 powi n \<le> x"
  shows "n \<le> ilog2 x"
proof (rule ccontr)
  assume "\<not> n \<le> ilog2 x"
  then have "ilog2 x + 1 \<le> n" by simp
  then have "(2::rat) powi (ilog2 x + 1) \<le> 2 powi n" by (intro power_int_increasing) auto
  with ilog2_bounds(2)[OF assms(1)] assms(2) show False by simp
qed

lemma round_half_even_of_int [simp]: "round_half_even (of_int k) = k"
  by (simp add: round_half_even_def)

lemma round_half_even_le: "y \<le> of_int k \<Longrightarrow> round_half_even y \<le> k"
  unfolding round_half_even_def Let_def
  by (auto simp: floor_le_iff)

lemma round_half_even_ge: "of_int k \<le> y \<Longrightarrow> k \<le> round_half_even y"
proof -
  assume "of_int k \<le> y"
  then have "k \<le> \<lfloor>y\<rfloor>" by (simp add: le_floor_iff)
  then show ?thesis unfolding round_half_even_def Let_def by auto
qed

lemma rnd_pos_unfold:
  assumes "0 < x"
  shows "rnd x = (let q = max (ilog2 x) (- 1022) - 52; m = round_half_even (x / 2 powi q)
      in if 971 < q \<or> (q = 971 \<and> m = 2 ^ 53) then PInf else Fin (of_int m * 2 powi q))"
proof -
  have nz: "(x = 0) = False" and a: "\<bar>x\<bar> = x" and sg: "sgn x = 1"
    using assms by simp_all
  show ?thesis
    by (simp only: rnd_def nz a sg if_False if_True mult_1_left assms)
qed

lemma rnd_0 [simp]: "rnd 0 = Fin 0"
  by (simp add: rnd_def)

lemma rnd_nonneg:
  assumes "0 \<le> x"
  shows "nonneg (rnd x)"
proof (cases "x = 0")
  case True
  then show ?thesis by simp
next
  case False
  with assms have x: "0 < x" by simp
  have "0 \<le> round_half_even (x / 2 powi q)" for q
    using x by (intro round_half_even_ge) simp
  then show ?thesis by (auto simp add: rnd_pos_unfold[OF x] Let_def)
qed

text \<open>Rounding never carries a value above an integer of at most 53 bits.\<close>

lemma rnd_le_int:
  assumes x: "0 < x" and xN: "x \<le> of_int N" and N: "N \<le> 2 ^ 53"
  shows "\<exists>r. rnd x = Fin r \<and> 0 \<le> r \<and> r \<le> of_int N"
proof -
  define q where "q = max (ilog2 x) (- 1022) - 52"
  define m where "m = round_half_even (x / 2 powi q)"
  have x53: "x \<le> 2 powi 53"
  proof -
    have "(of_int N :: rat) \<le> of_int (2 ^ 53)" using N by (simp only: of_int_le_iff)
    with xN show ?thesis by simp
  qed
  then have e53: "ilog2 x \<le> 53" using x by (intro ilog2_le)
  then have q1: "q \<le> 1" by (simp add: q_def)
  have m0: "0 \<le> m" unfolding m_def using x by (intro round_half_even_ge) simp
  have r: "rnd x = Fin (of_int m * 2 powi q)"
    using q1 by (simp add: rnd_pos_unfold[OF x] Let_def q_def[symmetric] m_def[symmetric])
  have le: "of_int m * 2 powi q \<le> (of_int N :: rat)"
  proof (cases "q \<le> 0")
    case True
    define K where "K = N * 2 ^ nat (- q)"
    have pq: "(2::rat) powi q = 1 / 2 ^ nat (- q)"
      using True
      by (simp add: power_int_def inverse_eq_divide power_inverse[symmetric] flip: power_one_over)
    have "x / 2 powi q \<le> of_int K"
      using xN by (simp add: pq K_def mult_right_mono)
    then have "m \<le> K" unfolding m_def by (rule round_half_even_le)
    then have "(of_int m :: rat) \<le> of_int K" by (simp only: of_int_le_iff)
    then have "(of_int m :: rat) \<le> of_int N * 2 ^ nat (- q)" by (simp add: K_def)
    then show ?thesis by (simp add: pq field_simps)
  next
    case False
    with q1 have q: "q = 1" by simp
    then have "ilog2 x = 53" using e53 by (simp add: q_def split: if_splits)
    then have "2 powi 53 \<le> x" using ilog2_bounds(1)[OF x] by simp
    then have xl: "2 ^ 53 \<le> x" by simp
    have "x / 2 \<le> 2 ^ 52" using x53 by simp
    also have "(2 ^ 52 :: rat) = of_int (2 ^ 52)" by simp
    finally have "x / 2 powi q \<le> of_int (2 ^ 52)" by (simp only: q power_int_1_right)
    then have "m \<le> 2 ^ 52" unfolding m_def by (rule round_half_even_le)
    then have "(of_int m :: rat) \<le> of_int (2 ^ 52)" by (simp only: of_int_le_iff)
    then have "of_int m * 2 \<le> (2 ^ 53 :: rat)" by simp
    with xl xN show ?thesis by (simp add: q)
  qed
  from r m0 le show ?thesis by (auto intro!: mult_nonneg_nonneg)
qed

text \<open>Every integer of at most 53 bits is a binary64 value.\<close>

lemma rnd_of_int:
  assumes "\<bar>i\<bar> \<le> 2 ^ 53"
  shows "rnd (of_int i) = Fin (of_int i)"
proof (cases "i = 0")
  case True
  then show ?thesis by simp
next
  case False
  define x :: rat where "x = of_int \<bar>i\<bar>"
  have x: "0 < x" "1 \<le> x" using False by (simp_all add: x_def)
  define q where "q = max (ilog2 x) (- 1022) - 52"
  define m where "m = round_half_even (x / 2 powi q)"
  have ax: "\<bar>of_int i :: rat\<bar> = x" by (simp add: x_def)
  have x53: "x \<le> 2 powi 53"
  proof -
    have "(of_int \<bar>i\<bar> :: rat) \<le> of_int (2 ^ 53)" using assms by (simp only: of_int_le_iff)
    then show ?thesis by (simp add: x_def)
  qed
  then have e53: "ilog2 x \<le> 53" using x by (intro ilog2_le)
  have e0: "0 \<le> ilog2 x" using x by (intro ilog2_ge) simp_all
  have qe: "q = ilog2 x - 52" using e0 by (simp add: q_def)
  have q1: "q \<le> 1" using e53 qe by simp
  have mq: "of_int m * 2 powi q = x"
  proof (cases "q \<le> 0")
    case True
    have pq: "(2::rat) powi q = 1 / 2 ^ nat (- q)"
      using True
      by (simp add: power_int_def inverse_eq_divide power_inverse[symmetric] flip: power_one_over)
    have "x / 2 powi q = of_int (\<bar>i\<bar> * 2 ^ nat (- q))"
      by (simp add: pq x_def)
    then have "m = \<bar>i\<bar> * 2 ^ nat (- q)" unfolding m_def by (simp only: round_half_even_of_int)
    then show ?thesis by (simp add: pq x_def)
  next
    case False
    with q1 have q: "q = 1" by simp
    then have "ilog2 x = 53" using qe by simp
    then have "2 powi 53 \<le> x" using ilog2_bounds(1)[OF x(1)] by simp
    with x53 have xv: "x = 2 ^ 53" by simp
    have "x / 2 powi q = of_int (2 ^ 52)" by (simp add: xv q)
    then have "m = 2 ^ 52" unfolding m_def by (simp only: round_half_even_of_int)
    then show ?thesis by (simp add: xv q)
  qed
  have "rnd (of_int i) = Fin (sgn (of_int i) * of_int m * 2 powi q)"
    using q1 False by (simp add: rnd_def ax Let_def q_def[symmetric] m_def[symmetric])
  also have "sgn (of_int i :: rat) * of_int m * 2 powi q = sgn (of_int i) * x"
    using mq by (simp add: mult.assoc)
  also have "\<dots> = of_int i" by (simp add: x_def sgn_if)
  finally show ?thesis .
qed

lemma rnd_numeral: "(numeral n :: int) \<le> 2 ^ 53 \<Longrightarrow> rnd (numeral n) = Fin (numeral n)"
  using rnd_of_int[of "numeral n"] by simp

lemma rnd_1 [simp]: "rnd 1 = Fin 1"
  using rnd_of_int[of 1] by simp

lemma rnd_of_nat: "n \<le> 2 ^ 53 \<Longrightarrow> rnd (of_nat n) = Fin (of_nat n)"
  using rnd_of_int[of "int n"] by simp

section \<open>The end-to-end scenario\<close>

text \<open>The floats of the scenario: the literals 0.8 and 0.9, and 0.8 * 60 and 0.9 * 50.\<close>

lemma literal_0_8: "rnd (4 / 5) = Fin (3602879701896397 / 4503599627370496)"
  by code_simp

lemma literal_0_9: "rnd (9 / 10) = Fin (8106479329266893 / 9007199254740992)"
  by code_simp

lemma severity_times_60: "rnd (54043195528445955 / 1125899906842624) = Fin 48"
  by code_simp

lemma criticality_times_50: "rnd (202661983231672325 / 4503599627370496) = Fin 45"
  by code_simp

lemmas scenario_simps =
  bootstrap_policy_def srv_1_def e1_def Rule_match_def Rule_score_def no_when_def no_calc_def
  fne_def feq_def py_max2_def fgt_def dict_get_def Let_def
  literal_0_8 literal_0_9 severity_times_60 criticality_times_50 rnd_numeral

text \<open>
  C4. The event \<^verbatim>\<open>e1\<close> on the asset \<^verbatim>\<open>srv-1\<close> under the built-in policy gives exactly
  one ScoreResult; its score is exactly 188.0 and its applied list has exactly three
  entries: 93.0 (48 + 45) from the severity and criticality rule, 40.0 from the label
  bonus, 55.0 (10 + 20 + 25) from the tag bonus.
\<close>

theorem scenario_score_188:
  "map_option eng_results
     (evaluate (RiskEngine [''srv-1'' \<mapsto> srv_1] [e1 ts] bootstrap_policy)) =
   Some [\<lparr>result_event = ''e1'', result_asset = ''srv-1'', result_score = Fin 188,
          result_applied =
            [\<lparr>applied_rule = ''sev-asset'', applied_name = ''Severity and criticality'',
              applied_score = Fin 93\<rparr>,
             \<lparr>applied_rule = ''label-bonus'', applied_name = ''Label bonus'',
              applied_score = Fin 40\<rparr>,
             \<lparr>applied_rule = ''tag-bonus'', applied_name = ''Asset tag bonus'',
              applied_score = Fin 55\<rparr>],
          result_ts = ts\<rparr>]"
  by (simp add: evaluate_def RiskEngine_def scenario_simps)

section \<open>Rule.score\<close>

lemma fge_zero_iff: "fge v (Fin 0) \<longleftrightarrow> nonneg v"
  by (cases v) (auto simp: fge_def feq_def)

lemma py_max2_zero_nonneg: "nonneg (py_max2 (Fin 0) x)"
  by (cases x) (auto simp: py_max2_def fgt_def)

lemma Rule_score_nonneg: "Rule_score r a e = Some v \<Longrightarrow> nonneg v"
  by (auto simp: Rule_score_def Let_def py_max2_zero_nonneg split: Option.bind_splits)

lemma py_float_numeric_iff: "(\<exists>x. py_float (dict_get f (Num d)) = Some x) \<longleftrightarrow> numeric f"
  by (cases f; cases "the f") (auto simp: numeric_def dict_get_def)

lemma floats_of_numeric_iff: "(\<exists>xs. floats_of vs = Some xs) \<longleftrightarrow> NonNum \<notin> set vs"
proof (induction vs)
  case Nil
  then show ?case by simp
next
  case (Cons v vs)
  then show ?case by (cases v; cases "floats_of vs") auto
qed

lemma floats_of_append:
  "floats_of (xs @ ys) =
   Option.bind (floats_of xs) (\<lambda>a. Option.bind (floats_of ys) (\<lambda>b. Some (a @ b)))"
proof (induction xs)
  case Nil
  then show ?case by (cases "floats_of ys") simp_all
next
  case (Cons v xs)
  show ?case
    by (cases v; cases "floats_of xs"; cases "floats_of ys") (simp_all add: Cons.IH)
qed

text \<open>
  A bonus loop adds to \<open>bonus\<close>, from the left, the floats of the bonuses that apply,
  and raises when one of these is not numeric.
\<close>

lemma bonus_loop_eq:
  "bonus_loop items present b =
   map_option (foldl fadd b) (floats_of (map snd (filter (\<lambda>kv. fst kv \<in> set present) items)))"
proof (induction items arbitrary: b)
  case Nil
  then show ?case by simp
next
  case (Cons kv items)
  obtain k v where kv: "kv = (k, v)" by (cases kv)
  show ?case
  proof (cases "k \<in> set present")
    case True
    show ?thesis
    proof (cases v)
      case (Num x)
      then show ?thesis using True
        by (cases "floats_of (map snd (filter (\<lambda>kv. fst kv \<in> set present) items))")
           (simp_all add: kv Cons.IH)
    next
      case NonNum
      then show ?thesis using True by (simp add: kv)
    qed
  next
    case False
    then show ?thesis by (simp add: kv Cons.IH)
  qed
qed

lemma bonus_field_eq:
  "(case f of None \<Rightarrow> Some b | Some items \<Rightarrow> bonus_loop items present b) =
   map_option (foldl fadd b) (floats_of (present_bonuses f present))"
  by (cases f) (simp_all add: present_bonuses_def bonus_loop_eq)

lemma bonuses_eq:
  "Option.bind (case f of None \<Rightarrow> Some (Fin 0) | Some items \<Rightarrow> bonus_loop items ls (Fin 0))
     (\<lambda>b1. case g of None \<Rightarrow> Some b1 | Some items \<Rightarrow> bonus_loop items ts b1) =
   map_option running_total (floats_of (present_bonuses f ls @ present_bonuses g ts))"
  unfolding bonus_field_eq floats_of_append running_total_def
  by (cases "floats_of (present_bonuses f ls)"; cases "floats_of (present_bonuses g ts)") simp_all

lemma Rule_score_eq:
  "Rule_score r a e = do {
     base \<leftarrow> py_float (dict_get (calc_base (rule_calc r)) (Num (Fin 0)));
     sev \<leftarrow> py_float (dict_get (event_severity e) (Num (Fin 0)));
     crit \<leftarrow> py_float (dict_get (asset_criticality a) (Num (Fin 0)));
     mul_sev \<leftarrow> py_float (dict_get (calc_mul_severity (rule_calc r)) (Num (Fin 0)));
     mul_crit \<leftarrow> py_float (dict_get (calc_mul_criticality (rule_calc r)) (Num (Fin 0)));
     bonus \<leftarrow> map_option running_total
       (floats_of (present_bonuses (calc_if_label_bonus (rule_calc r)) (event_labels e) @
                   present_bonuses (calc_if_tag_bonus (rule_calc r)) (asset_tags a)));
     Some (py_max2 (Fin 0)
       (fmul (fadd (fadd (fadd base (fmul sev mul_sev)) (fmul crit mul_crit)) bonus)
             (rule_weight r)))
   }"
  unfolding bonuses_eq[symmetric] Rule_score_def Let_def
  by (simp add: bind_assoc)

lemma py_max2_zero: "py_max2 (Fin 0) x = (if flt (Fin 0) x then x else Fin 0)"
  by (simp add: py_max2_def fgt_def)

lemma rnd_neg_numeral:
  "(numeral n :: int) \<le> 2 ^ 53 \<Longrightarrow> rnd (- numeral n) = Fin (- numeral n)"
  using rnd_of_int[of "- numeral n"] by simp

text \<open>
  C5. For every rule, whatever the signs of its base, multipliers, bonuses and weight,
  and every asset and event: \<^verbatim>\<open>Rule.score\<close> returns exactly when the values it
  converts are numeric (the base, the two multipliers, the severity, the criticality and
  the bonuses that apply), and whatever it returns is \<^verbatim>\<open>>= 0\<close>. The value returned
  is determined as follows: the bonuses that apply are the label bonuses whose label is
  among the event's labels, followed by the tag bonuses whose tag is among the asset's
  tags; they are summed from 0.0 in that order; the raw total is
  \<open>base + severity * mul_severity + criticality * mul_criticality\<close> plus that sum; the
  raw total times the weight is returned when it is greater than 0, and 0.0 otherwise.
\<close>

theorem Rule_score_clamped:
  "((\<exists>v. Rule_score r a e = Some v) \<longleftrightarrow>
      numeric (calc_base (rule_calc r)) \<and> numeric (event_severity e) \<and>
      numeric (asset_criticality a) \<and> numeric (calc_mul_severity (rule_calc r)) \<and>
      numeric (calc_mul_criticality (rule_calc r)) \<and>
      NonNum \<notin> set (present_bonuses (calc_if_label_bonus (rule_calc r)) (event_labels e) @
                      present_bonuses (calc_if_tag_bonus (rule_calc r)) (asset_tags a))) \<and>
   (\<forall>v. Rule_score r a e = Some v \<longrightarrow>
      fge v (Fin 0) \<and>
      (\<exists>base sev crit mul_sev mul_crit bonuses raw.
         py_float (dict_get (calc_base (rule_calc r)) (Num (Fin 0))) = Some base \<and>
         py_float (dict_get (event_severity e) (Num (Fin 0))) = Some sev \<and>
         py_float (dict_get (asset_criticality a) (Num (Fin 0))) = Some crit \<and>
         py_float (dict_get (calc_mul_severity (rule_calc r)) (Num (Fin 0))) = Some mul_sev \<and>
         py_float (dict_get (calc_mul_criticality (rule_calc r)) (Num (Fin 0))) = Some mul_crit \<and>
         floats_of (present_bonuses (calc_if_label_bonus (rule_calc r)) (event_labels e) @
                    present_bonuses (calc_if_tag_bonus (rule_calc r)) (asset_tags a)) =
           Some bonuses \<and>
         raw = fadd (fadd (fadd base (fmul sev mul_sev)) (fmul crit mul_crit))
                    (running_total bonuses) \<and>
         v = (if flt (Fin 0) (fmul raw (rule_weight r)) then fmul raw (rule_weight r)
              else Fin 0)))"
proof (intro conjI impI allI)
  let ?bs = "present_bonuses (calc_if_label_bonus (rule_calc r)) (event_labels e) @
             present_bonuses (calc_if_tag_bonus (rule_calc r)) (asset_tags a)"
  have "(\<exists>v. Rule_score r a e = Some v) \<longleftrightarrow>
      (\<exists>x. py_float (dict_get (calc_base (rule_calc r)) (Num (Fin 0))) = Some x) \<and>
      (\<exists>x. py_float (dict_get (event_severity e) (Num (Fin 0))) = Some x) \<and>
      (\<exists>x. py_float (dict_get (asset_criticality a) (Num (Fin 0))) = Some x) \<and>
      (\<exists>x. py_float (dict_get (calc_mul_severity (rule_calc r)) (Num (Fin 0))) = Some x) \<and>
      (\<exists>x. py_float (dict_get (calc_mul_criticality (rule_calc r)) (Num (Fin 0))) = Some x) \<and>
      (\<exists>xs. floats_of ?bs = Some xs)"
    unfolding Rule_score_eq by (auto split: Option.bind_splits)
  then show "(\<exists>v. Rule_score r a e = Some v) \<longleftrightarrow>
      numeric (calc_base (rule_calc r)) \<and> numeric (event_severity e) \<and>
      numeric (asset_criticality a) \<and> numeric (calc_mul_severity (rule_calc r)) \<and>
      numeric (calc_mul_criticality (rule_calc r)) \<and> NonNum \<notin> set ?bs"
    unfolding py_float_numeric_iff floats_of_numeric_iff .
next
  fix v assume "Rule_score r a e = Some v"
  then show "fge v (Fin 0)" by (simp add: fge_zero_iff Rule_score_nonneg)
next
  fix v assume "Rule_score r a e = Some v"
  then show "\<exists>base sev crit mul_sev mul_crit bonuses raw.
         py_float (dict_get (calc_base (rule_calc r)) (Num (Fin 0))) = Some base \<and>
         py_float (dict_get (event_severity e) (Num (Fin 0))) = Some sev \<and>
         py_float (dict_get (asset_criticality a) (Num (Fin 0))) = Some crit \<and>
         py_float (dict_get (calc_mul_severity (rule_calc r)) (Num (Fin 0))) = Some mul_sev \<and>
         py_float (dict_get (calc_mul_criticality (rule_calc r)) (Num (Fin 0))) = Some mul_crit \<and>
         floats_of (present_bonuses (calc_if_label_bonus (rule_calc r)) (event_labels e) @
                    present_bonuses (calc_if_tag_bonus (rule_calc r)) (asset_tags a)) =
           Some bonuses \<and>
         raw = fadd (fadd (fadd base (fmul sev mul_sev)) (fmul crit mul_crit))
                    (running_total bonuses) \<and>
         v = (if flt (Fin 0) (fmul raw (rule_weight r)) then fmul raw (rule_weight r)
              else Fin 0)"
    unfolding Rule_score_eq py_max2_zero
    by (auto split: Option.bind_splits)
qed

text \<open>
  On the sample asset and event, the rule \<open>bonus_rule\<close> has the bonuses -40, 20 and 10
  (the non-numeric bonus of the absent label is never converted) and the raw total -5:
  with weight 1 the score is clamped to 0, with weight -1 it is 5. The first rule of
  the built-in policy scores 93.
\<close>

theorem Rule_score_clamped_witness:
  "numeric (calc_base (rule_calc (bonus_rule 1))) \<and> numeric (event_severity (e1 0)) \<and>
   numeric (asset_criticality srv_1) \<and>
   numeric (calc_mul_severity (rule_calc (bonus_rule 1))) \<and>
   numeric (calc_mul_criticality (rule_calc (bonus_rule 1))) \<and>
   present_bonuses (calc_if_label_bonus (rule_calc (bonus_rule 1))) (event_labels (e1 0)) @
   present_bonuses (calc_if_tag_bonus (rule_calc (bonus_rule 1))) (asset_tags srv_1) =
     [Num (Fin (- 40)), Num (Fin 20), Num (Fin 10)] \<and>
   Rule_score (bonus_rule 1) srv_1 (e1 0) = Some (Fin 0) \<and>
   Rule_score (bonus_rule (- 1)) srv_1 (e1 0) = Some (Fin 5) \<and>
   Rule_score (hd (policy_rules bootstrap_policy)) srv_1 (e1 0) = Some (Fin 93) \<and>
   fge (Fin 0) (Fin 0) \<and> fge (Fin 5) (Fin 0) \<and> fge (Fin 93) (Fin 0)"
  using Rule_score_clamped [where r = "bonus_rule 1" and a = srv_1 and e = "e1 0"]
    Rule_score_clamped [where r = "bonus_rule (- 1)" and a = srv_1 and e = "e1 0"]
    Rule_score_clamped [where r = "hd (policy_rules bootstrap_policy)" and a = srv_1 and e = "e1 0"]
  by (simp add: bonus_rule_def numeric_def present_bonuses_def
      running_total_def scenario_simps rnd_neg_numeral fge_def)

text \<open>
  C2. \<^verbatim>\<open>Rule.match\<close> reads the severity through \<^verbatim>\<open>to_num\<close>: a non-numeric
  severity matches as severity 0 does. \<^verbatim>\<open>Rule.score\<close> converts severity and
  criticality with \<^verbatim>\<open>float\<close> itself: on a non-numeric severity or criticality it
  raises, for every rule.
\<close>

theorem Rule_score_raises_on_non_numeric:
  "Rule_match r a (e\<lparr>event_severity := Some NonNum\<rparr>) =
     Rule_match r a (e\<lparr>event_severity := Some (Num (Fin 0))\<rparr>) \<and>
   Rule_score r a (e\<lparr>event_severity := Some NonNum\<rparr>) = None \<and>
   Rule_score r (a\<lparr>asset_criticality := Some NonNum\<rparr>) e = None"
  by (auto simp: Rule_match_def Rule_score_def Let_def dict_get_def to_num_def
      split: Option.bind_splits option.splits)

section \<open>The loops of evaluate\<close>

lemma apply_rules_eq:
  "apply_rules rs a e (t, ap) =
   map_option (\<lambda>ens. (foldl fadd t (map applied_score ens), ap @ ens)) (rule_entries rs a e)"
proof (induction rs arbitrary: t ap)
  case Nil
  then show ?case by simp
next
  case (Cons r rs)
  show ?case
    by (cases "Rule_match r a e"; cases "Rule_score r a e"; cases "rule_entries rs a e")
       (auto simp: Cons.IH rule_entry_def)
qed

lemma rule_entry_cases:
  assumes "rule_entry r a e = Some en"
  shows "en = [] \<or> (\<exists>v. en = [\<lparr>applied_rule = rule_id r, applied_name = rule_name r, applied_score = v\<rparr>]
     \<and> Rule_score r a e = Some v \<and> fne v (Fin 0))"
  using assms by (auto simp: rule_entry_def split: Option.bind_splits if_splits)

lemma rule_entries_None_iff:
  "rule_entries rs a e = None \<longleftrightarrow> (\<exists>r \<in> set rs. rule_entry r a e = None)"
  by (induction rs) (auto split: Option.bind_splits)

lemma rule_entries_mset:
  "rule_entries rs a e = Some ens \<Longrightarrow>
   mset ens = (\<Sum>r \<in># mset rs. mset (case rule_entry r a e of None \<Rightarrow> [] | Some en \<Rightarrow> en))"
  by (induction rs arbitrary: ens) (auto split: Option.bind_splits)

lemma rule_entries_perm:
  assumes "mset rs' = mset rs"
  shows "(rule_entries rs' a e = None \<longleftrightarrow> rule_entries rs a e = None)"
    and "rule_entries rs a e = Some ens \<Longrightarrow> rule_entries rs' a e = Some ens' \<Longrightarrow> mset ens' = mset ens"
proof -
  from assms have "set rs' = set rs" by (rule mset_eq_setD)
  then show "(rule_entries rs' a e = None \<longleftrightarrow> rule_entries rs a e = None)"
    by (simp add: rule_entries_None_iff)
  show "rule_entries rs a e = Some ens \<Longrightarrow> rule_entries rs' a e = Some ens' \<Longrightarrow> mset ens' = mset ens"
    using assms by (simp add: rule_entries_mset)
qed

lemma rule_entries_nonzero:
  "rule_entries rs a e = Some ens \<Longrightarrow> x \<in> set ens \<Longrightarrow> fne (applied_score x) (Fin 0)"
proof (induction rs arbitrary: ens)
  case Nil
  then show ?case by simp
next
  case (Cons r rs)
  from Cons.prems(1) obtain en ens0 where en: "rule_entry r a e = Some en"
    and ens0: "rule_entries rs a e = Some ens0" and ens: "ens = en @ ens0"
    by (auto split: Option.bind_splits)
  from Cons.prems(2) ens have "x \<in> set en \<or> x \<in> set ens0" by simp
  then show ?case
  proof
    assume "x \<in> set en"
    with rule_entry_cases[OF en] show ?thesis by auto
  next
    assume "x \<in> set ens0"
    with Cons.IH[OF ens0] show ?thesis .
  qed
qed

lemma rule_entries_subseq:
  "rule_entries rs a e = Some ens \<Longrightarrow>
   subseq (map (\<lambda>x. (applied_rule x, applied_name x)) ens) (map (\<lambda>r. (rule_id r, rule_name r)) rs)"
proof (induction rs arbitrary: ens)
  case Nil
  then show ?case by simp
next
  case (Cons r rs)
  from Cons.prems(1) obtain en ens0 where en: "rule_entry r a e = Some en"
    and ens0: "rule_entries rs a e = Some ens0" and ens: "ens = en @ ens0"
    by (auto split: Option.bind_splits)
  from rule_entry_cases[OF en] Cons.IH[OF ens0] show ?case
    by (auto simp: ens)
qed

lemma rule_entries_nonneg:
  "rule_entries rs a e = Some ens \<Longrightarrow> x \<in> set ens \<Longrightarrow> nonneg (applied_score x)"
proof (induction rs arbitrary: ens)
  case Nil
  then show ?case by simp
next
  case (Cons r rs)
  from Cons.prems(1) obtain en ens0 where en: "rule_entry r a e = Some en"
    and ens0: "rule_entries rs a e = Some ens0" and ens: "ens = en @ ens0"
    by (auto split: Option.bind_splits)
  from Cons.prems(2) ens have "x \<in> set en \<or> x \<in> set ens0" by simp
  then show ?case
  proof
    assume "x \<in> set en"
    with rule_entry_cases[OF en] show ?thesis by (auto dest: Rule_score_nonneg)
  next
    assume "x \<in> set ens0"
    with Cons.IH[OF ens0] show ?thesis .
  qed
qed

lemma evaluate_loop_eq:
  "evaluate_loop es eng =
   map_option (\<lambda>rs. eng\<lparr>eng_results := eng_results eng @ rs,
                         eng_by_asset := record_scores rs (eng_by_asset eng)\<rparr>)
     (event_results (eng_assets eng) (eng_policy eng) es)"
proof (induction es arbitrary: eng)
  case Nil
  then show ?case by (simp add: record_scores_def)
next
  case (Cons e es)
  show ?case
  proof (cases "AssetStore_get (eng_assets eng) (event_asset e)")
    case None
    then show ?thesis by (simp add: Cons.IH)
  next
    case (Some a)
    show ?thesis
    proof (cases "apply_rules (policy_rules (eng_policy eng)) a e (Fin 0, [])")
      case None
      then show ?thesis by (simp add: Some)
    next
      case (Some ta)
      obtain t ap where ta: "ta = (t, ap)" by (cases ta)
      show ?thesis
        by (cases "event_results (eng_assets eng) (eng_policy eng) es")
           (simp_all add: \<open>AssetStore_get (eng_assets eng) (event_asset e) = Some a\<close> Some ta
              Cons.IH record_scores_def)
    qed
  qed
qed

lemma evaluate_fresh:
  "evaluate (RiskEngine A E P) = Some eng \<longleftrightarrow>
   (\<exists>rs. event_results A P E = Some rs \<and>
      eng = \<lparr>eng_assets = A, eng_events = E, eng_policy = P, eng_results = rs,
             eng_by_asset = record_scores rs []\<rparr>)"
  by (auto simp: evaluate_def evaluate_loop_eq RiskEngine_def)

lemma event_results_elem:
  "event_results A P es = Some rs \<Longrightarrow> res \<in> set rs \<Longrightarrow>
   \<exists>e \<in> set es. \<exists>a. AssetStore_get A (event_asset e) = Some a \<and>
     apply_rules (policy_rules P) a e (Fin 0, []) = Some (result_score res, result_applied res) \<and>
     result_event res = event_id e \<and> result_asset res = asset_id a \<and> result_ts res = event_ts e"
proof (induction es arbitrary: rs)
  case Nil
  then show ?case by simp
next
  case (Cons e es)
  show ?case
  proof (cases "AssetStore_get A (event_asset e)")
    case None
    with Cons show ?thesis by auto
  next
    case (Some a)
    with Cons.prems(1) obtain t ap rs0 where
      ar: "apply_rules (policy_rules P) a e (Fin 0, []) = Some (t, ap)"
      and rs0: "event_results A P es = Some rs0"
      and rs: "rs = \<lparr>result_event = event_id e, result_asset = asset_id a,
                 result_score = t, result_applied = ap, result_ts = event_ts e\<rparr> # rs0"
      by (auto split: Option.bind_splits)
    from Cons.prems(2) rs have "res = \<lparr>result_event = event_id e, result_asset = asset_id a,
                 result_score = t, result_applied = ap, result_ts = event_ts e\<rparr> \<or> res \<in> set rs0"
      by simp
    then show ?thesis
    proof
      assume "res \<in> set rs0"
      from Cons.IH[OF rs0 this] show ?thesis by auto
    next
      assume "res = \<lparr>result_event = event_id e, result_asset = asset_id a,
                 result_score = t, result_applied = ap, result_ts = event_ts e\<rparr>"
      with Some ar show ?thesis by auto
    qed
  qed
qed

text \<open>
  C10. In every ScoreResult of \<^verbatim>\<open>evaluate\<close>, the score is the sum of the scores of
  its applied entries (float additions from 0.0 in list order), every applied entry
  has a non-zero score, and the applied entries follow the policy's rule order: their
  (rule id, name) pairs are a subsequence of those of the policy's rules.
\<close>
theorem result_score_is_sum_of_applied:
  assumes "evaluate (RiskEngine A E P) = Some eng"
  shows "\<forall>res \<in> set (eng_results eng).
     result_score res = running_total (map applied_score (result_applied res)) \<and>
     (\<forall>x \<in> set (result_applied res). fne (applied_score x) (Fin 0)) \<and>
     subseq (map (\<lambda>x. (applied_rule x, applied_name x)) (result_applied res))
            (map (\<lambda>r. (rule_id r, rule_name r)) (policy_rules P))"
proof
  fix res assume res: "res \<in> set (eng_results eng)"
  from assms obtain rs where rs: "event_results A P E = Some rs" and eng: "eng_results eng = rs"
    by (auto simp: evaluate_fresh)
  from event_results_elem[OF rs] res eng obtain e a where
    ar: "apply_rules (policy_rules P) a e (Fin 0, []) = Some (result_score res, result_applied res)"
    by blast
  then have "\<exists>ens. rule_entries (policy_rules P) a e = Some ens \<and>
      result_score res = foldl fadd (Fin 0) (map applied_score ens) \<and> result_applied res = ens"
    by (auto simp: apply_rules_eq)
  then obtain ens where ens: "rule_entries (policy_rules P) a e = Some ens"
    and s: "result_score res = foldl fadd (Fin 0) (map applied_score ens)"
    and ap: "result_applied res = ens"
    by blast
  show "result_score res = running_total (map applied_score (result_applied res)) \<and>
     (\<forall>x \<in> set (result_applied res). fne (applied_score x) (Fin 0)) \<and>
     subseq (map (\<lambda>x. (applied_rule x, applied_name x)) (result_applied res))
            (map (\<lambda>r. (rule_id r, rule_name r)) (policy_rules P))"
    using rule_entries_nonzero[OF ens] rule_entries_subseq[OF ens]
    by (simp add: s ap running_total_def)
qed

theorem result_score_is_sum_of_applied_witness:
  "\<exists>eng. evaluate (RiskEngine [''srv-1'' \<mapsto> srv_1] [e1 0] bootstrap_policy) = Some eng \<and>
     (\<forall>res \<in> set (eng_results eng).
        result_score res = running_total (map applied_score (result_applied res)) \<and>
        (\<forall>x \<in> set (result_applied res). fne (applied_score x) (Fin 0)) \<and>
        subseq (map (\<lambda>x. (applied_rule x, applied_name x)) (result_applied res))
               (map (\<lambda>r. (rule_id r, rule_name r)) (policy_rules bootstrap_policy)))"
proof -
  have "evaluate (RiskEngine [''srv-1'' \<mapsto> srv_1] [e1 0] bootstrap_policy) \<noteq> None"
    by (simp add: evaluate_def RiskEngine_def scenario_simps)
  then obtain eng where
    eng: "evaluate (RiskEngine [''srv-1'' \<mapsto> srv_1] [e1 0] bootstrap_policy) = Some eng"
    by blast
  from result_score_is_sum_of_applied [OF eng] eng show ?thesis by blast
qed

section \<open>The per-asset score lists\<close>

lemma by_asset_get_append:
  "by_asset_get (by_asset_append k v B) k' = by_asset_get B k' @ (if k' = k then [v] else [])"
  by (induction B) (auto simp: by_asset_get_def)

lemma by_asset_get_record_scores:
  "by_asset_get (record_scores rs B) k = by_asset_get B k @ scores_of rs k"
  unfolding record_scores_def scores_of_def
  by (induction rs arbitrary: B) (auto simp: by_asset_get_append)

lemma by_asset_get_Nil [simp]: "by_asset_get [] k = []"
  by (simp add: by_asset_get_def)

lemma set_keys_by_asset_append:
  "fst ` set (by_asset_append k v B) = insert k (fst ` set B)"
proof (induction B)
  case Nil
  then show ?case by simp
next
  case (Cons kv B)
  obtain k0 vs where kv: "kv = (k0, vs)" by (cases kv)
  show ?case
  proof (cases "k0 = k")
    case True
    then show ?thesis by (simp add: kv)
  next
    case False
    then show ?thesis using Cons.IH by (simp add: kv insert_commute)
  qed
qed

lemma evaluate_fresh_eq:
  "evaluate (RiskEngine A E P) =
   map_option (\<lambda>rs. \<lparr>eng_assets = A, eng_events = E, eng_policy = P, eng_results = rs,
                      eng_by_asset = record_scores rs []\<rparr>) (event_results A P E)"
  by (cases "event_results A P E") (simp_all add: evaluate_def evaluate_loop_eq RiskEngine_def)

lemma keys_by_asset_append:
  "map fst (by_asset_append k v B) = (if k \<in> fst ` set B then map fst B else map fst B @ [k])"
proof (induction B)
  case Nil
  then show ?case by simp
next
  case (Cons kv B)
  obtain k0 vs where kv: "kv = (k0, vs)" by (cases kv)
  show ?case
  proof (cases "k0 = k")
    case True
    then show ?thesis by (simp add: kv)
  next
    case False
    then show ?thesis using Cons.IH by (simp add: kv)
  qed
qed

lemma keys_record_scores_known:
  "result_asset ` set rs \<subseteq> fst ` set B \<Longrightarrow> map fst (record_scores rs B) = map fst B"
  unfolding record_scores_def
proof (induction rs arbitrary: B)
  case Nil
  then show ?case by simp
next
  case (Cons r rs)
  from Cons.prems have r: "result_asset r \<in> fst ` set B"
    and rs: "result_asset ` set rs \<subseteq> fst ` set (by_asset_append (result_asset r) (result_score r) B)"
    by (auto simp: set_keys_by_asset_append)
  from Cons.IH[OF rs] r show ?case by (simp add: keys_by_asset_append)
qed

lemma set_keys_record_scores:
  "fst ` set (record_scores rs B) = fst ` set B \<union> result_asset ` set rs"
  unfolding record_scores_def
  by (induction rs arbitrary: B) (simp_all add: set_keys_by_asset_append)

lemma distinct_keys_record_scores:
  "distinct (map fst B) \<Longrightarrow> distinct (map fst (record_scores rs B))"
  unfolding record_scores_def
proof (induction rs arbitrary: B)
  case Nil
  then show ?case by simp
next
  case (Cons r rs)
  have "distinct (map fst (by_asset_append (result_asset r) (result_score r) B))"
    using Cons.prems by (simp add: keys_by_asset_append)
  from Cons.IH[OF this] show ?case by simp
qed

lemma by_asset_append_nonempty:
  "\<forall>kv \<in> set B. snd kv \<noteq> [] \<Longrightarrow> \<forall>kv \<in> set (by_asset_append k v B). snd kv \<noteq> []"
proof (induction B)
  case Nil
  then show ?case by simp
next
  case (Cons kv B)
  obtain k0 vs where kv: "kv = (k0, vs)" by (cases kv)
  from Cons.prems have "\<forall>kv \<in> set B. snd kv \<noteq> []" by simp
  from Cons.IH[OF this] Cons.prems show ?case by (simp add: kv)
qed

lemma record_scores_nonempty:
  "\<forall>kv \<in> set B. snd kv \<noteq> [] \<Longrightarrow> \<forall>kv \<in> set (record_scores rs B). snd kv \<noteq> []"
  unfolding record_scores_def
proof (induction rs arbitrary: B)
  case Nil
  then show ?case by simp
next
  case (Cons r rs)
  from Cons.IH[OF by_asset_append_nonempty[OF Cons.prems]] show ?case by simp
qed

text \<open>
  C1 fails as stated. A second \<^verbatim>\<open>evaluate()\<close> on the same engine does not leave
  the results list as the first call left it: on the sample engine the results
  list has one entry after the first call and two after the second.
\<close>

theorem evaluate_twice_counterexample:
  "map_option eng_results
     (Option.bind (evaluate (RiskEngine [''srv-1'' \<mapsto> srv_1] [e1 0] bootstrap_policy)) evaluate) \<noteq>
   map_option eng_results
     (evaluate (RiskEngine [''srv-1'' \<mapsto> srv_1] [e1 0] bootstrap_policy)) \<and>
   map_option (length \<circ> eng_results)
     (evaluate (RiskEngine [''srv-1'' \<mapsto> srv_1] [e1 0] bootstrap_policy)) = Some 1 \<and>
   map_option (length \<circ> eng_results)
     (Option.bind (evaluate (RiskEngine [''srv-1'' \<mapsto> srv_1] [e1 0] bootstrap_policy)) evaluate) = Some 2"
  by (simp add: evaluate_def RiskEngine_def scenario_simps)

text \<open>
  C1, as the code has it. \<^verbatim>\<open>results\<close> and \<^verbatim>\<open>by_asset\<close> are created by the
  constructor and only appended to by \<^verbatim>\<open>evaluate\<close>. After \<^verbatim>\<open>evaluate()\<close> on a new
  engine, a second call on the same engine succeeds and appends a second copy: the
  results list is the first call's list twice over, \<^verbatim>\<open>by_asset\<close> keeps its keys and
  every score list is doubled. A new engine over the unchanged inputs yields the first
  call's state again.
\<close>

theorem evaluate_twice_appends:
  assumes "evaluate (RiskEngine A E P) = Some eng1"
  shows "\<exists>eng2. evaluate eng1 = Some eng2 \<and>
     eng_results eng2 = eng_results eng1 @ eng_results eng1 \<and>
     map fst (eng_by_asset eng2) = map fst (eng_by_asset eng1) \<and>
     (\<forall>aid. by_asset_get (eng_by_asset eng2) aid =
        by_asset_get (eng_by_asset eng1) aid @ by_asset_get (eng_by_asset eng1) aid) \<and>
     evaluate (RiskEngine (eng_assets eng1) (eng_events eng1) (eng_policy eng1)) = Some eng1"
proof -
  from assms obtain rs where rs: "event_results A P E = Some rs"
    and eng1: "eng1 = \<lparr>eng_assets = A, eng_events = E, eng_policy = P, eng_results = rs,
             eng_by_asset = record_scores rs []\<rparr>"
    by (auto simp: evaluate_fresh)
  define eng2 where "eng2 = eng1\<lparr>eng_results := rs @ rs,
      eng_by_asset := record_scores rs (record_scores rs [])\<rparr>"
  have e2: "evaluate eng1 = Some eng2"
    by (simp add: evaluate_def evaluate_loop_eq eng1 rs eng2_def)
  have keys: "map fst (eng_by_asset eng2) = map fst (eng_by_asset eng1)"
    using set_keys_record_scores[of rs "[]"]
    by (simp add: eng2_def eng1 keys_record_scores_known)
  have scores: "by_asset_get (eng_by_asset eng2) aid =
        by_asset_get (eng_by_asset eng1) aid @ by_asset_get (eng_by_asset eng1) aid" for aid
    by (simp add: eng2_def eng1 by_asset_get_record_scores)
  have again: "evaluate (RiskEngine (eng_assets eng1) (eng_events eng1) (eng_policy eng1)) = Some eng1"
    using assms by (simp add: eng1)
  from e2 keys scores again show ?thesis by (auto simp: eng2_def eng1)
qed

theorem evaluate_twice_appends_witness:
  "\<exists>eng1 eng2.
     evaluate (RiskEngine [''srv-1'' \<mapsto> srv_1] [e1 0] bootstrap_policy) = Some eng1 \<and>
     evaluate eng1 = Some eng2 \<and>
     eng_results eng2 = eng_results eng1 @ eng_results eng1 \<and>
     by_asset_get (eng_by_asset eng1) ''srv-1'' = [Fin 188] \<and>
     by_asset_get (eng_by_asset eng2) ''srv-1'' = [Fin 188, Fin 188]"
proof -
  have "evaluate (RiskEngine [''srv-1'' \<mapsto> srv_1] [e1 0] bootstrap_policy) \<noteq> None"
    by (simp add: evaluate_def RiskEngine_def scenario_simps)
  then obtain eng1 where
    eng1: "evaluate (RiskEngine [''srv-1'' \<mapsto> srv_1] [e1 0] bootstrap_policy) = Some eng1"
    by blast
  then have b: "by_asset_get (eng_by_asset eng1) ''srv-1'' = [Fin 188]"
    by (auto simp add: evaluate_def RiskEngine_def scenario_simps by_asset_get_def)
  from evaluate_twice_appends [OF eng1] obtain eng2 where
    "evaluate eng1 = Some eng2" "eng_results eng2 = eng_results eng1 @ eng_results eng1"
    "by_asset_get (eng_by_asset eng2) ''srv-1'' =
       by_asset_get (eng_by_asset eng1) ''srv-1'' @ by_asset_get (eng_by_asset eng1) ''srv-1''"
    by blast
  with eng1 b show ?thesis by auto
qed

lemma AssetStore_load_keyed:
  "keyed_by_id assets \<Longrightarrow> AssetStore_load uuids raws (i, assets) = Some (i', assets') \<Longrightarrow>
   keyed_by_id assets'"
proof (induction raws arbitrary: i assets)
  case Nil
  then show ?case by simp
next
  case (Cons a raws)
  define aid where "aid = (if dict_get (raw_id a) [] \<noteq> [] then dict_get (raw_id a) [] else uuids i)"
  define j where "j = (if dict_get (raw_id a) [] \<noteq> [] then i else Suc i)"
  from Cons.prems(2) obtain crit where
    l: "AssetStore_load uuids raws
          (j, assets(aid \<mapsto>
             \<lparr>asset_id = aid, asset_name = dict_get (raw_name a) aid,
              asset_type = dict_get (raw_type a) [], asset_tags = dict_get (raw_tags a) [],
              asset_criticality = Some (Num crit)\<rparr>)) = Some (i', assets')"
    by (auto simp: aid_def j_def split: Option.bind_splits if_splits)
  have "keyed_by_id (assets(aid \<mapsto>
             \<lparr>asset_id = aid, asset_name = dict_get (raw_name a) aid,
              asset_type = dict_get (raw_type a) [], asset_tags = dict_get (raw_tags a) [],
              asset_criticality = Some (Num crit)\<rparr>))"
    using Cons.prems(1) by (auto simp: keyed_by_id_def)
  from Cons.IH[OF this l] show ?case .
qed

lemma AssetStore_load_new_keyed:
  "AssetStore_load uuids raws (0, Map.empty) = Some (i', assets') \<Longrightarrow> keyed_by_id assets'"
  by (rule AssetStore_load_keyed) (simp_all add: keyed_by_id_def)

lemma event_results_filter:
  "event_results A P (filter (\<lambda>e. AssetStore_get A (event_asset e) \<noteq> None) es) = event_results A P es"
  by (induction es) (auto split: option.splits)

text \<open>
  C6. Events whose asset is not in the store leave no trace: \<^verbatim>\<open>evaluate\<close> with and
  without them ends alike (raising or not), with the same results, the same
  \<^verbatim>\<open>by_asset\<close> and the same aggregate. Every ScoreResult belongs to an event of the
  store whose asset was found, and carries that asset's id; in a store keyed by id (as
  \<^verbatim>\<open>AssetStore.load\<close> builds it) that id resolves to the asset.
\<close>

theorem unknown_asset_events_skipped:
  "map_option (\<lambda>eng. (eng_results eng, eng_by_asset eng, aggregate eng))
     (evaluate (RiskEngine A (filter (\<lambda>e. AssetStore_get A (event_asset e) \<noteq> None) E) P)) =
   map_option (\<lambda>eng. (eng_results eng, eng_by_asset eng, aggregate eng))
     (evaluate (RiskEngine A E P)) \<and>
   (\<forall>eng. evaluate (RiskEngine A E P) = Some eng \<longrightarrow>
     (\<forall>res \<in> set (eng_results eng).
        \<exists>e \<in> set E. \<exists>a. AssetStore_get A (event_asset e) = Some a \<and>
          result_event res = event_id e \<and> result_asset res = asset_id a \<and>
          (keyed_by_id A \<longrightarrow> A (result_asset res) = Some a)))"
proof (intro conjI allI impI ballI)
  show "map_option (\<lambda>eng. (eng_results eng, eng_by_asset eng, aggregate eng))
     (evaluate (RiskEngine A (filter (\<lambda>e. AssetStore_get A (event_asset e) \<noteq> None) E) P)) =
   map_option (\<lambda>eng. (eng_results eng, eng_by_asset eng, aggregate eng))
     (evaluate (RiskEngine A E P))"
    unfolding evaluate_fresh_eq event_results_filter
    by (simp add: option.map_comp comp_def aggregate_def)
next
  fix eng res
  assume ev: "evaluate (RiskEngine A E P) = Some eng" and res: "res \<in> set (eng_results eng)"
  from ev obtain rs where rs: "event_results A P E = Some rs" and eng: "eng_results eng = rs"
    by (auto simp: evaluate_fresh)
  from event_results_elem[OF rs] res eng obtain e a where
    e: "e \<in> set E" and a: "AssetStore_get A (event_asset e) = Some a"
    and r: "result_event res = event_id e" "result_asset res = asset_id a"
    by blast
  have "keyed_by_id A \<longrightarrow> A (result_asset res) = Some a"
    using a r by (cases "event_asset e") (auto simp: keyed_by_id_def)
  with e a r show "\<exists>e \<in> set E. \<exists>a. AssetStore_get A (event_asset e) = Some a \<and>
          result_event res = event_id e \<and> result_asset res = asset_id a \<and>
          (keyed_by_id A \<longrightarrow> A (result_asset res) = Some a)"
    by blast
qed

theorem unknown_asset_events_skipped_witness:
  "keyed_by_id [''srv-1'' \<mapsto> srv_1] \<and>
   (\<exists>eng. evaluate (RiskEngine [''srv-1'' \<mapsto> srv_1]
              [(e1 0)\<lparr>event_id := ''e0'', event_asset := Some ''ghost''\<rparr>, e1 0]
              bootstrap_policy) = Some eng \<and>
      map result_event (eng_results eng) = [''e1''] \<and>
      map fst (eng_by_asset eng) = [''srv-1''] \<and>
      (\<forall>res \<in> set (eng_results eng).
         \<exists>a. [''srv-1'' \<mapsto> srv_1] (result_asset res) = Some a))"
proof -
  let ?A = "[''srv-1'' \<mapsto> srv_1]"
  let ?E = "[(e1 0)\<lparr>event_id := ''e0'', event_asset := Some ''ghost''\<rparr>, e1 0]"
  have k: "keyed_by_id ?A" by (simp add: keyed_by_id_def srv_1_def)
  have "evaluate (RiskEngine ?A ?E bootstrap_policy) \<noteq> None"
    by (simp add: evaluate_def RiskEngine_def scenario_simps)
  then obtain eng where eng: "evaluate (RiskEngine ?A ?E bootstrap_policy) = Some eng" by blast
  then have r: "map result_event (eng_results eng) = [''e1'']"
    and b: "map fst (eng_by_asset eng) = [''srv-1'']"
    by (auto simp add: evaluate_def RiskEngine_def scenario_simps)
  from unknown_asset_events_skipped [where A = ?A and E = ?E and P = bootstrap_policy] eng k
  have h: "\<forall>res \<in> set (eng_results eng). \<exists>a. ?A (result_asset res) = Some a"
    by blast
  show ?thesis
  proof (intro conjI exI[of _ eng])
    show "keyed_by_id ?A" by (rule k)
    show "evaluate (RiskEngine ?A ?E bootstrap_policy) = Some eng" by (rule eng)
    show "map result_event (eng_results eng) = [''e1'']" by (rule r)
    show "map fst (eng_by_asset eng) = [''srv-1'']" by (rule b)
    show "\<forall>res \<in> set (eng_results eng). \<exists>a. ?A (result_asset res) = Some a" by (rule h)
  qed
qed

section \<open>Permuting the rules\<close>

lemma sums_exact_foldl:
  "sums_exact t vs \<Longrightarrow>
   foldl fadd (Fin t) vs = Fin (t + sum_list (map (\<lambda>v. case v of Fin r \<Rightarrow> r | _ \<Rightarrow> 0) vs))"
proof (induction vs arbitrary: t)
  case Nil
  then show ?case by simp
next
  case (Cons v vs)
  from Cons.prems obtain x where v: "v = Fin x" by (cases v) auto
  from Cons.prems v have r: "rnd (t + x) = Fin (t + x)" and s: "sums_exact (t + x) vs" by auto
  from Cons.IH[OF s] show ?case by (simp add: v r add.assoc)
qed

lemma sums_exact_perm:
  assumes "sums_exact 0 vs" "sums_exact 0 vs'" "mset vs' = mset vs"
  shows "running_total vs' = running_total vs"
proof -
  let ?f = "\<lambda>v. case v of Fin r \<Rightarrow> r | _ \<Rightarrow> (0::rat)"
  from assms(3) have "mset (map ?f vs') = mset (map ?f vs)" by (metis mset_map)
  then have "sum_list (map ?f vs') = sum_list (map ?f vs)" by (metis sum_mset_sum_list)
  with sums_exact_foldl[OF assms(1)] sums_exact_foldl[OF assms(2)] show ?thesis
    by (simp add: running_total_def)
qed

lemma apply_rules_perm:
  assumes p: "mset rs' = mset rs"
    and a: "apply_rules rs a e (Fin 0, []) = Some (t, ap)"
  shows "\<exists>t' ap'. apply_rules rs' a e (Fin 0, []) = Some (t', ap') \<and>
     mset ap' = mset ap \<and> t = running_total (map applied_score ap) \<and>
     t' = running_total (map applied_score ap') \<and>
     (sums_exact 0 (map applied_score ap) \<and> sums_exact 0 (map applied_score ap') \<longrightarrow> t' = t)"
proof -
  from a have ens: "rule_entries rs a e = Some ap" and t: "t = running_total (map applied_score ap)"
    by (auto simp: apply_rules_eq running_total_def)
  from rule_entries_perm(1)[OF p, of a e] ens obtain ap' where
    ens': "rule_entries rs' a e = Some ap'" by auto
  from rule_entries_perm(2)[OF p ens ens'] have m: "mset ap' = mset ap" .
  then have mm: "mset (map applied_score ap') = mset (map applied_score ap)"
    by (metis mset_map)
  have ex: "sums_exact 0 (map applied_score ap) \<and> sums_exact 0 (map applied_score ap') \<longrightarrow>
      running_total (map applied_score ap') = running_total (map applied_score ap)"
    using sums_exact_perm[OF _ _ mm] by blast
  have "apply_rules rs' a e (Fin 0, []) = Some (running_total (map applied_score ap'), ap')"
    by (simp add: apply_rules_eq ens' running_total_def)
  with m t ex show ?thesis by simp
qed

lemma event_results_perm:
  assumes p: "mset (policy_rules P') = mset (policy_rules P)"
  shows "event_results A P es = Some rs \<Longrightarrow>
     \<exists>rs'. event_results A P' es = Some rs' \<and> list_all2 same_up_to_order rs rs'"
proof (induction es arbitrary: rs)
  case Nil
  then show ?case by simp
next
  case (Cons e es)
  show ?case
  proof (cases "AssetStore_get A (event_asset e)")
    case None
    with Cons show ?thesis by simp
  next
    case (Some a)
    with Cons.prems obtain t ap rs0 where
      ar: "apply_rules (policy_rules P) a e (Fin 0, []) = Some (t, ap)"
      and rs0: "event_results A P es = Some rs0"
      and rs: "rs = \<lparr>result_event = event_id e, result_asset = asset_id a,
                 result_score = t, result_applied = ap, result_ts = event_ts e\<rparr> # rs0"
      by (auto split: Option.bind_splits)
    from apply_rules_perm[OF p ar] obtain t' ap' where
      ar': "apply_rules (policy_rules P') a e (Fin 0, []) = Some (t', ap')"
      and rel: "mset ap' = mset ap" "t = running_total (map applied_score ap)"
        "t' = running_total (map applied_score ap')"
        "sums_exact 0 (map applied_score ap) \<and> sums_exact 0 (map applied_score ap') \<longrightarrow> t' = t"
      by blast
    from Cons.IH[OF rs0] obtain rs0' where
      rs0': "event_results A P' es = Some rs0'" and l: "list_all2 same_up_to_order rs0 rs0'"
      by blast
    have "event_results A P' (e # es) =
        Some (\<lparr>result_event = event_id e, result_asset = asset_id a,
                 result_score = t', result_applied = ap', result_ts = event_ts e\<rparr> # rs0')"
      by (simp add: Some ar' rs0')
    moreover have "same_up_to_order \<lparr>result_event = event_id e, result_asset = asset_id a,
                 result_score = t, result_applied = ap, result_ts = event_ts e\<rparr>
         \<lparr>result_event = event_id e, result_asset = asset_id a,
                 result_score = t', result_applied = ap', result_ts = event_ts e\<rparr>"
      using rel by (simp add: same_up_to_order_def)
    ultimately show ?thesis using l rs by simp
  qed
qed

lemma rnd_1e16: "rnd 10000000000000000 = Fin 10000000000000000"
  by code_simp

lemma rnd_1e16_plus_1: "rnd 10000000000000001 = Fin 10000000000000000"
  by code_simp

lemma rnd_1e16_plus_2: "rnd 10000000000000002 = Fin 10000000000000002"
  by code_simp

text \<open>
  C7 fails as stated: the total depends on the order of the rules. Three rules scoring
  1e16, 1 and 1: in this order the total is 1e16 (each 1 is lost to
  rounding), with the first rule moved to the end it is 1e16 + 2.
\<close>

theorem total_depends_on_rule_order_counterexample:
  "mset [const_rule ''one'' 1, const_rule ''uno'' 1, const_rule ''big'' 10000000000000000] =
   mset [const_rule ''big'' 10000000000000000, const_rule ''one'' 1, const_rule ''uno'' 1] \<and>
   map_option (map result_score \<circ> eng_results)
     (evaluate (RiskEngine [''srv-1'' \<mapsto> srv_1] [e1 0]
        (policy_of [const_rule ''big'' 10000000000000000, const_rule ''one'' 1,
                    const_rule ''uno'' 1]))) = Some [Fin 10000000000000000] \<and>
   map_option (map result_score \<circ> eng_results)
     (evaluate (RiskEngine [''srv-1'' \<mapsto> srv_1] [e1 0]
        (policy_of [const_rule ''one'' 1, const_rule ''uno'' 1,
                    const_rule ''big'' 10000000000000000]))) = Some [Fin 10000000000000002]"
  by (simp add: evaluate_def RiskEngine_def policy_of_def const_rule_def scenario_simps
      rnd_1e16 rnd_1e16_plus_1 rnd_1e16_plus_2)

text \<open>
  C7, as the code has it. Permuting the policy's rules permutes the applied entries of
  every ScoreResult and changes nothing else but the rounding of the total: evaluation
  succeeds under the permuted policy as well, results correspond one to one with the
  same event, asset and time stamp and the same applied entries as a multiset, each
  total is the float sum of its applied scores in its own order, and the two totals are
  equal whenever neither sum rounds.
\<close>

theorem total_under_rule_permutation:
  assumes "mset (policy_rules P') = mset (policy_rules P)"
    and "evaluate (RiskEngine A E P) = Some eng"
  shows "\<exists>eng'. evaluate (RiskEngine A E P') = Some eng' \<and>
     list_all2 same_up_to_order (eng_results eng) (eng_results eng')"
proof -
  from assms(2) obtain rs where rs: "event_results A P E = Some rs" and eng: "eng_results eng = rs"
    by (auto simp: evaluate_fresh)
  from event_results_perm[OF assms(1) rs] obtain rs' where
    "event_results A P' E = Some rs'" "list_all2 same_up_to_order rs rs'" by blast
  then show ?thesis by (simp add: evaluate_fresh_eq eng)
qed

theorem total_under_rule_permutation_witness:
  "mset (policy_rules (policy_of (rev (policy_rules bootstrap_policy)))) =
     mset (policy_rules bootstrap_policy) \<and>
   (\<exists>eng eng'.
      evaluate (RiskEngine [''srv-1'' \<mapsto> srv_1] [e1 0] bootstrap_policy) = Some eng \<and>
      evaluate (RiskEngine [''srv-1'' \<mapsto> srv_1] [e1 0]
        (policy_of (rev (policy_rules bootstrap_policy)))) = Some eng' \<and>
      list_all2 same_up_to_order (eng_results eng) (eng_results eng'))"
proof -
  have m: "mset (policy_rules (policy_of (rev (policy_rules bootstrap_policy)))) =
     mset (policy_rules bootstrap_policy)"
    by (simp add: policy_of_def)
  have "evaluate (RiskEngine [''srv-1'' \<mapsto> srv_1] [e1 0] bootstrap_policy) \<noteq> None"
    by (simp add: evaluate_def RiskEngine_def scenario_simps)
  then obtain eng where
    eng: "evaluate (RiskEngine [''srv-1'' \<mapsto> srv_1] [e1 0] bootstrap_policy) = Some eng"
    by blast
  from total_under_rule_permutation [OF m eng] m eng show ?thesis by blast
qed

section \<open>The percentile\<close>

lemma length_insort_lt [simp]: "length (insort_lt lt key x ys) = Suc (length ys)"
  by (induction ys) auto

lemma length_py_sort_key [simp]: "length (py_sort_key lt key xs) = length xs"
  unfolding py_sort_key_def by (induction xs) auto

lemma length_py_sorted [simp]: "length (py_sorted vals) = length vals"
  by (simp add: py_sorted_def)

text \<open>On floats without NaN, \<open>py_sorted\<close> is the ascending rearrangement.\<close>

lemma mset_insort_lt [simp]: "mset (insort_lt lt key x ys) = add_mset x (mset ys)"
  by (induction ys) auto

lemma mset_py_sort_key [simp]: "mset (py_sort_key lt key xs) = mset xs"
  unfolding py_sort_key_def by (induction xs) auto

lemma flt_total: "x \<noteq> NaN \<Longrightarrow> y \<noteq> NaN \<Longrightarrow> flt x y \<or> x = y \<or> flt y x"
  by (cases x; cases y) auto

lemma flt_trans: "flt x y \<Longrightarrow> flt y z \<Longrightarrow> flt x z"
  by (cases x; cases y; cases z) auto

lemma insort_flt_ascending:
  assumes "NaN \<notin> set (x # ys)" "sorted_wrt (\<lambda>a b. \<not> flt b a) ys"
  shows "sorted_wrt (\<lambda>a b. \<not> flt b a) (insort_lt flt (\<lambda>v. v) x ys)"
  using assms
proof (induction ys)
  case Nil
  then show ?case by simp
next
  case (Cons y ys)
  from Cons.prems(1) have n: "x \<noteq> NaN" "y \<noteq> NaN" by auto
  show ?case
  proof (cases "flt y x")
    case True
    have xy: "\<not> flt x y" using True by (cases x; cases y) auto
    have "sorted_wrt (\<lambda>a b. \<not> flt b a) (insort_lt flt (\<lambda>v. v) x ys)"
      using Cons.IH Cons.prems by simp
    moreover have "\<forall>z \<in> set (insort_lt flt (\<lambda>v. v) x ys). \<not> flt z y"
      using Cons.prems(2) xy
      by (induction ys) (auto split: if_splits)
    ultimately show ?thesis using True by simp
  next
    case False
    have "\<not> flt z x" if z: "z \<in> set ys" for z
    proof
      assume zx: "flt z x"
      from Cons.prems(2) z have "\<not> flt z y" by simp
      moreover from Cons.prems(1) z have "z \<noteq> NaN" by auto
      ultimately have "z = y \<or> flt y z" using flt_total[OF _ n(2), of z] by blast
      with zx False show False by (auto dest: flt_trans)
    qed
    with False Cons.prems(2) show ?thesis by simp
  qed
qed

lemma py_sorted_ascending:
  "NaN \<notin> set vals \<Longrightarrow>
   sorted_wrt (\<lambda>a b. \<not> flt b a) (py_sorted vals) \<and> mset (py_sorted vals) = mset vals"
proof (induction vals)
  case Nil
  then show ?case by (simp add: py_sorted_def py_sort_key_def)
next
  case (Cons x vals)
  then have s: "sorted_wrt (\<lambda>a b. \<not> flt b a) (py_sort_key flt (\<lambda>v. v) vals)"
    by (simp add: py_sorted_def)
  have m: "set (py_sort_key flt (\<lambda>v. v) vals) = set vals"
    by (rule mset_eq_setD) simp
  have "NaN \<notin> set (x # py_sort_key flt (\<lambda>v. v) vals)" using Cons.prems m by simp
  from insort_flt_ascending[OF this s]
  have "sorted_wrt (\<lambda>a b. \<not> flt b a) (py_sorted (x # vals))"
    by (simp add: py_sorted_def py_sort_key_def)
  moreover have "mset (py_sorted (x # vals)) = mset (x # vals)"
    by (simp add: py_sorted_def)
  ultimately show ?case by simp
qed

lemma rnd_unit_interval:
  assumes "0 \<le> x" "x \<le> 1"
  shows "\<exists>r. rnd x = Fin r \<and> 0 \<le> r \<and> r \<le> 1"
proof (cases "x = 0")
  case True
  then show ?thesis by simp
next
  case False
  with assms have "0 < x" "x \<le> of_int 1" by simp_all
  from rnd_le_int[OF this] show ?thesis by simp
qed

lemma rnd_below_nat:
  assumes "0 \<le> x" "x \<le> of_nat m" "m \<le> 2 ^ 53"
  shows "\<exists>r. rnd x = Fin r \<and> 0 \<le> r \<and> r \<le> of_nat m"
proof (cases "x = 0")
  case True
  then show ?thesis by simp
next
  case False
  with assms have "0 < x" "x \<le> of_int (int m)" by simp_all
  moreover have "int m \<le> 2 ^ 53" using assms(3) by (metis of_nat_le_iff of_nat_numeral of_nat_power)
  ultimately show ?thesis using rnd_le_int[of x "int m"] by simp
qed

lemma float_of_int_small:
  "\<bar>i\<bar> \<le> 2 ^ 53 \<Longrightarrow> float_of_int i = Some (Fin (of_int i))"
  by (simp add: float_of_int_def rnd_of_int)

lemma py_index_in_range:
  "0 \<le> i \<Longrightarrow> i < int (length xs) \<Longrightarrow> py_index xs i = Some (xs ! nat i)"
  by (simp add: py_index_def Let_def)

lemma percentile_interpolation:
  assumes p: "0 \<le> p" "p \<le> 100" and len: "length vals \<le> 2 ^ 53"
  shows "percentile vals (Fin p) = Some (percentile_spec vals p)"
proof (cases "vals = []")
  case True
  then show ?thesis by (simp add: percentile_def percentile_spec_def py_sorted_def py_sort_key_def)
next
  case False
  define s where "s = py_sorted vals"
  define n where "n = length s"
  have n: "0 < n" "n \<le> 2 ^ 53" using False len by (simp_all add: n_def s_def)
  have sne: "s \<noteq> []" using n by (auto simp: n_def)
  define m where "m = n - 1"
  have m: "m \<le> 2 ^ 53" "int n - 1 = int m" "m < n" using n by (simp_all add: m_def)
  have n1: "float_of_int (int n - 1) = Some (Fin (of_nat m))"
  proof -
    have "int m \<le> 2 ^ 53" using m(1) by (metis of_nat_le_iff of_nat_numeral of_nat_power)
    then have "\<bar>int m\<bar> \<le> 2 ^ 53" by simp
    from float_of_int_small[OF this] show ?thesis by (simp add: m(2))
  qed
  from p have "0 \<le> p / 100" "p / 100 \<le> 1" by simp_all
  from rnd_unit_interval[OF this] obtain q where
    q: "rnd (p / 100) = Fin q" "0 \<le> q" "q \<le> 1" by blast
  have "0 \<le> of_nat m * q" using q(2) by simp
  moreover have "of_nat m * q \<le> of_nat m" using q(2,3) by (simp add: mult_left_le)
  ultimately obtain k where
    k: "rnd (of_nat m * q) = Fin k" "0 \<le> k" "k \<le> of_nat m"
    using rnd_below_nat[OF _ _ m(1)] by blast
  define f where "f = \<lfloor>k\<rfloor>"
  define c where "c = \<lceil>k\<rceil>"
  have f0: "0 \<le> f" using k(2) by (simp add: f_def)
  have cn: "c \<le> int m" using k(3) by (simp add: c_def ceiling_le_iff)
  have fc: "f \<le> c" by (simp add: f_def c_def floor_le_ceiling)
  have c0: "0 \<le> c" using f0 fc by simp
  have fn: "f < int n" "c < int n" using cn fc m(3) by simp_all
  have c53: "\<bar>c\<bar> \<le> 2 ^ 53" "\<bar>f\<bar> \<le> 2 ^ 53"
  proof -
    have "int n \<le> 2 ^ 53" using n(2) by (metis of_nat_le_iff of_nat_numeral of_nat_power)
    with fn c0 f0 show "\<bar>c\<bar> \<le> 2 ^ 53" "\<bar>f\<bar> \<le> 2 ^ 53" by simp_all
  qed
  have idx: "py_index s f = Some (s ! nat f)" "py_index s c = Some (s ! nat c)"
    using f0 c0 fn by (simp_all add: py_index_in_range n_def)
  have pint: "py_int (Fin k) = Some f" using k(2) by (simp add: f_def)
  have code: "percentile vals (Fin p) =
      Some (if f = c then s ! nat f
            else fadd (fmul (s ! nat f) (fsub (Fin (of_int c)) (Fin k)))
                      (fmul (s ! nat c) (fsub (Fin k) (Fin (of_int f)))))"
    unfolding percentile_def Let_def s_def[symmetric] n_def[symmetric]
    using sne
    by (simp add: n1 q(1) k(1) f_def[symmetric] c_def[symmetric] idx pint
        float_of_int_small[OF c53(1)] float_of_int_small[OF c53(2)])
  have spec: "percentile_spec vals p =
      (if f = c then s ! nat f
            else fadd (fmul (s ! nat f) (fsub (Fin (of_int c)) (Fin k)))
                      (fmul (s ! nat c) (fsub (Fin k) (Fin (of_int f)))))"
    unfolding percentile_spec_def Let_def s_def[symmetric] n_def[symmetric] m_def[symmetric]
    using n(1)
    by (simp add: q(1) k(1) f_def[symmetric] c_def[symmetric])
  show ?thesis by (simp add: code spec)
qed



lemma rnd_half: "rnd (1 / 2) = Fin (1 / 2)"
  by code_simp






text \<open>
  With the other grouping of \<open>(n - 1) * p / 100\<close>, the quotient of \<open>(n - 1) * p\<close> by
  100, \<open>k\<close> would be another float: for 101 values and \<open>p = 7\<close> the code's \<open>k\<close> is
  just above 7, the quotient is 7.
\<close>

lemma percentile_grouping:
  "fmul (Fin 100) (rnd (7 / 100)) = Fin (7881299347898369 / 1125899906842624) \<and>
   rnd (100 * 7 / 100) = Fin 7"
  by code_simp



section \<open>aggregate\<close>







lemma record_scores_entry:
  assumes "(k, vs) \<in> set (record_scores rs [])"
  shows "vs = scores_of rs k" "vs \<noteq> []"
proof -
  have d: "distinct (map fst (record_scores rs []))"
    by (rule distinct_keys_record_scores) simp
  from assms d have "map_of (record_scores rs []) k = Some vs" by simp
  then have "by_asset_get (record_scores rs []) k = vs" by (simp add: by_asset_get_def)
  then show "vs = scores_of rs k" by (simp add: by_asset_get_record_scores)
  from record_scores_nonempty[of "[]" rs] assms show "vs \<noteq> []" by auto
qed



section \<open>The order of the summary\<close>

lemma flt_irrefl [simp]: "\<not> flt x x"
  by (cases x) auto

lemma flt_asym: "flt x y \<Longrightarrow> \<not> flt y x"
  by (cases x; cases y) auto

lemma flt_fneg [simp]: "flt (fneg x) (fneg y) = flt y x"
  by (cases x; cases y) auto

lemma fneg_eq_iff [simp]: "fneg x = fneg y \<longleftrightarrow> x = y"
  by (cases x; cases y) auto

lemma fneg_NaN_iff [simp]: "fneg x = NaN \<longleftrightarrow> x = NaN"
  by (cases x) auto

lemma fne_iff: "x \<noteq> NaN \<Longrightarrow> fne x y \<longleftrightarrow> x \<noteq> y"
  by (auto simp: fne_def feq_def)

lemma not_flt_iff: "x \<noteq> NaN \<Longrightarrow> y \<noteq> NaN \<Longrightarrow> x \<noteq> y \<Longrightarrow> (\<not> flt x y) = flt y x"
  by (cases x; cases y) auto

lemma key_lt_summary_key:
  assumes "row_max y \<noteq> NaN" "row_avg y \<noteq> NaN"
  shows "key_lt (summary_key y) (summary_key x) =
     (if row_max y \<noteq> row_max x then flt (row_max x) (row_max y)
      else if row_avg y \<noteq> row_avg x then flt (row_avg x) (row_avg y)
      else row_asset y < row_asset x)"
  using assms by (simp add: summary_key_def fne_iff)

lemma not_key_lt_iff:
  assumes "row_max x \<noteq> NaN" "row_avg x \<noteq> NaN" "row_max y \<noteq> NaN" "row_avg y \<noteq> NaN"
  shows "\<not> key_lt (summary_key y) (summary_key x) \<longleftrightarrow> summary_before x y"
proof (cases "row_max y = row_max x")
  case False
  then have "summary_before x y = flt (row_max y) (row_max x)"
    by (auto simp: summary_before_def)
  with False assms show ?thesis
    by (simp add: key_lt_summary_key not_flt_iff)
next
  case mx: True
  show ?thesis
  proof (cases "row_avg y = row_avg x")
    case False
    then have "summary_before x y = flt (row_avg y) (row_avg x)"
      using mx by (auto simp: summary_before_def)
    with False mx assms show ?thesis
      by (simp add: key_lt_summary_key not_flt_iff)
  next
    case True
    then have "summary_before x y = (row_asset x \<le> row_asset y)"
      using mx by (simp add: summary_before_def)
    with True mx assms show ?thesis
      by (simp add: key_lt_summary_key not_less)
  qed
qed

lemma summary_before_trans:
  assumes "row_max x \<noteq> NaN" "row_avg x \<noteq> NaN" "row_max y \<noteq> NaN" "row_avg y \<noteq> NaN"
    and "summary_before x y" "summary_before y z"
  shows "summary_before x z"
proof -
  from assms(5) consider
    (1) "flt (row_max y) (row_max x)"
    | (2) "row_max x = row_max y" "flt (row_avg y) (row_avg x)"
    | (3) "row_max x = row_max y" "row_avg x = row_avg y" "row_asset x \<le> row_asset y"
    by (auto simp: summary_before_def)
  then show ?thesis
  proof cases
    case 1
    from assms(6) have "flt (row_max z) (row_max y) \<or> row_max y = row_max z"
      by (auto simp: summary_before_def)
    with 1 have "flt (row_max z) (row_max x)" by (auto intro: flt_trans)
    then show ?thesis by (simp add: summary_before_def)
  next
    case 2
    from assms(6) consider "flt (row_max z) (row_max y)"
      | "row_max y = row_max z" "flt (row_avg z) (row_avg y) \<or> row_avg y = row_avg z"
      by (auto simp: summary_before_def)
    then show ?thesis
    proof cases
      case 1
      with 2 show ?thesis by (simp add: summary_before_def)
    next
      case b: 2
      with 2 have "flt (row_avg z) (row_avg x)" by (auto intro: flt_trans)
      with 2 b show ?thesis by (simp add: summary_before_def)
    qed
  next
    case 3
    with assms(6) show ?thesis by (auto simp: summary_before_def)
  qed
qed

lemma summary_before_total:
  assumes "row_max x \<noteq> NaN" "row_avg x \<noteq> NaN" "row_max y \<noteq> NaN" "row_avg y \<noteq> NaN"
  shows "summary_before x y \<or> summary_before y x"
proof -
  from flt_total[OF assms(1,3)] consider "flt (row_max x) (row_max y)"
    | "flt (row_max y) (row_max x)" | "row_max x = row_max y" by blast
  then show ?thesis
  proof cases
    case 3
    from flt_total[OF assms(2,4)] consider "flt (row_avg x) (row_avg y)"
      | "flt (row_avg y) (row_avg x)" | "row_avg x = row_avg y" by blast
    then show ?thesis
    proof cases
      case c: 3
      have "row_asset x \<le> row_asset y \<or> row_asset y \<le> row_asset x" by (rule linear)
      with 3 c show ?thesis by (auto simp: summary_before_def)
    qed (use 3 in \<open>simp_all add: summary_before_def\<close>)
  qed (simp_all add: summary_before_def)
qed

lemma set_insort_lt [simp]: "set (insort_lt lt key x ys) = insert x (set ys)"
  by (induction ys) auto

lemma set_py_sort_key [simp]: "set (py_sort_key lt key xs) = set xs"
  unfolding py_sort_key_def by (induction xs) auto

lemma insort_summary_sorted:
  assumes ok: "\<forall>r \<in> set (x # ys). row_max r \<noteq> NaN \<and> row_avg r \<noteq> NaN"
    and s: "sorted_wrt summary_before ys"
  shows "sorted_wrt summary_before (insort_lt key_lt summary_key x ys)"
  using assms
proof (induction ys)
  case Nil
  then show ?case by simp
next
  case (Cons y ys)
  from Cons.prems(1) have okx: "row_max x \<noteq> NaN" "row_avg x \<noteq> NaN"
    and oky: "row_max y \<noteq> NaN" "row_avg y \<noteq> NaN" by simp_all
  show ?case
  proof (cases "key_lt (summary_key y) (summary_key x)")
    case True
    then have "\<not> summary_before x y" using not_key_lt_iff[OF okx oky] by simp
    with summary_before_total[OF okx oky] have yx: "summary_before y x" by blast
    have "sorted_wrt summary_before (insort_lt key_lt summary_key x ys)"
      using Cons.IH Cons.prems by simp
    with yx Cons.prems(2) True show ?thesis by simp
  next
    case False
    then have xy: "summary_before x y" using not_key_lt_iff[OF okx oky] by simp
    have "summary_before x z" if "z \<in> set ys" for z
    proof -
      from Cons.prems(2) that have "summary_before y z" by simp
      from summary_before_trans[OF okx oky xy this] show ?thesis .
    qed
    with xy Cons.prems(2) False show ?thesis by simp
  qed
qed

lemma py_sort_key_summary_sorted:
  "\<forall>r \<in> set xs. row_max r \<noteq> NaN \<and> row_avg r \<noteq> NaN \<Longrightarrow>
   sorted_wrt summary_before (py_sort_key key_lt summary_key xs)"
proof (induction xs)
  case Nil
  then show ?case by (simp add: py_sort_key_def)
next
  case (Cons x xs)
  have s: "sorted_wrt summary_before (py_sort_key key_lt summary_key xs)"
    using Cons by simp
  have "sorted_wrt summary_before
      (insort_lt key_lt summary_key x (py_sort_key key_lt summary_key xs))"
    using Cons.prems by (intro insort_summary_sorted s) simp
  then show ?case by (simp add: py_sort_key_def)
qed

subsection \<open>Scores and aggregates are never NaN\<close>

lemma nonneg_not_NaN: "nonneg x \<Longrightarrow> x \<noteq> NaN"
  by (cases x) auto

lemma fadd_nonneg: "nonneg x \<Longrightarrow> nonneg y \<Longrightarrow> nonneg (fadd x y)"
  by (cases x; cases y) (auto intro: rnd_nonneg)

lemma foldl_fadd_nonneg:
  "nonneg t \<Longrightarrow> \<forall>v \<in> set vs. nonneg v \<Longrightarrow> nonneg (foldl fadd t vs)"
  by (induction vs arbitrary: t) (auto intro: fadd_nonneg)

lemma py_sum_nonneg: "\<forall>v \<in> set vs. nonneg v \<Longrightarrow> nonneg (py_sum vs)"
  unfolding py_sum_def by (rule foldl_fadd_nonneg) simp_all

lemma fdiv_nonneg: "nonneg x \<Longrightarrow> 0 < n \<Longrightarrow> fdiv x (Fin n) = Some y \<Longrightarrow> nonneg y"
  by (cases x) (auto intro: rnd_nonneg)

lemma foldl_py_max2_mem: "foldl py_max2 x xs \<in> set (x # xs)"
  by (induction xs arbitrary: x) (auto simp: py_max2_def)

lemma py_max_mem: "py_max vs = Some m \<Longrightarrow> m \<in> set vs"
  using foldl_py_max2_mem by (cases vs) auto

lemma aggregate_entry_nonneg:
  assumes "aggregate_entry vs = Some m" "vs \<noteq> []" "\<forall>v \<in> set vs. nonneg v"
  shows "nonneg (agg_max m)" "nonneg (agg_avg m)"
proof -
  from assms(1) obtain n avg mx where n: "float_of_int (int (length vs)) = Some n"
    and avg: "fdiv (py_sum vs) n = Some avg" and mx: "py_max vs = Some mx"
    and m: "agg_max m = mx" "agg_avg m = avg"
    by (auto simp: aggregate_entry_def split: Option.bind_splits)
  from py_max_mem[OF mx] assms(3) show "nonneg (agg_max m)" by (simp add: m)
  from n have "\<exists>r. n = Fin r \<and> rnd (of_nat (length vs)) = Fin r"
    by (cases "rnd (of_nat (length vs))") (auto simp: float_of_int_def)
  then obtain r where r: "n = Fin r" "rnd (of_nat (length vs)) = Fin r" by blast
  have "nonneg (rnd (of_nat (length vs)))" by (rule rnd_nonneg) simp
  then have r0: "0 \<le> r" by (simp add: r(2))
  from avg r(1) have "r \<noteq> 0" by (auto split: if_splits)
  with r0 have "0 < r" by simp
  from fdiv_nonneg[OF py_sum_nonneg[OF assms(3)] this] avg r(1)
  show "nonneg (agg_avg m)" by (simp add: m)
qed

lemma set_update_subset: "km \<in> set (AList.update k v al) \<Longrightarrow> km = (k, v) \<or> km \<in> set al"
  by (induction al) (auto split: if_splits)

lemma aggregate_loop_entries:
  "aggregate_loop B agg0 = Some agg \<Longrightarrow> km \<in> set agg \<Longrightarrow>
   km \<in> set agg0 \<or> (\<exists>k vs. (k, vs) \<in> set B \<and> vs \<noteq> [] \<and> aggregate_entry vs = Some (snd km))"
proof (induction B arbitrary: agg0)
  case Nil
  then show ?case by simp
next
  case (Cons kv B)
  obtain k vs where kv: "kv = (k, vs)" by (cases kv)
  show ?case
  proof (cases "vs = []")
    case True
    with Cons.prems kv have "aggregate_loop B agg0 = Some agg" by simp
    from Cons.IH[OF this Cons.prems(2)] show ?thesis by auto
  next
    case False
    with Cons.prems(1) kv obtain m where m: "aggregate_entry vs = Some m"
      and l: "aggregate_loop B (AList.update k m agg0) = Some agg"
      by (auto split: Option.bind_splits)
    from Cons.IH[OF l Cons.prems(2)] show ?thesis
    proof
      assume "km \<in> set (AList.update k m agg0)"
      from set_update_subset[OF this] show ?thesis
      proof
        assume "km = (k, m)"
        then have "(k, vs) \<in> set (kv # B) \<and> vs \<noteq> [] \<and> aggregate_entry vs = Some (snd km)"
          using m False kv by simp
        then show ?thesis by blast
      next
        assume "km \<in> set agg0"
        then show ?thesis by simp
      qed
    next
      assume "\<exists>k vs. (k, vs) \<in> set B \<and> vs \<noteq> [] \<and> aggregate_entry vs = Some (snd km)"
      then show ?thesis by auto
    qed
  qed
qed

lemma apply_rules_nonneg:
  assumes "apply_rules rs a e (Fin 0, []) = Some (t, ap)"
  shows "nonneg t"
proof -
  from assms obtain ens where ens: "rule_entries rs a e = Some ens"
    and t: "t = foldl fadd (Fin 0) (map applied_score ens)"
    by (auto simp: apply_rules_eq)
  have "\<forall>v \<in> set (map applied_score ens). nonneg v"
    using rule_entries_nonneg[OF ens] by auto
  then show ?thesis unfolding t by (intro foldl_fadd_nonneg) simp_all
qed

lemma event_results_nonneg:
  assumes "event_results A P es = Some rs" "res \<in> set rs"
  shows "nonneg (result_score res)"
proof -
  from event_results_elem[OF assms] obtain e a where
    "apply_rules (policy_rules P) a e (Fin 0, []) = Some (result_score res, result_applied res)"
    by blast
  then show ?thesis by (rule apply_rules_nonneg)
qed

lemma summary_row_of_metrics [simp]:
  "row_max (summary_row_of A (k, m)) = agg_max m"
  "row_avg (summary_row_of A (k, m)) = agg_avg m"
  by (simp_all add: summary_row_of_def split: option.splits)

text \<open>
  C9. The summary of the report exported after \<^verbatim>\<open>evaluate()\<close> on a new engine
  holds the rows of the aggregate, sorted by descending max, then descending average,
  then ascending asset id; so a row with average 10 stands before every row of equal max
  with average 5.
\<close>

theorem summary_sorted:
  assumes "evaluate (RiskEngine A E P) = Some eng"
    and "export_report generated_at eng A' = Some rep"
  shows "sorted_wrt summary_before (report_summary rep) \<and>
     (\<exists>agg. aggregate eng = Some agg \<and>
        mset (report_summary rep) = mset (map (summary_row_of A') agg)) \<and>
     (\<forall>i j. i < length (report_summary rep) \<and> j < length (report_summary rep) \<and>
        row_max (report_summary rep ! i) = row_max (report_summary rep ! j) \<and>
        row_avg (report_summary rep ! i) = Fin 10 \<and>
        row_avg (report_summary rep ! j) = Fin 5 \<longrightarrow> i < j)"
proof -
  from assms(1) obtain rs where rs: "event_results A P E = Some rs"
    and by_asset: "eng_by_asset eng = record_scores rs []"
    by (auto simp: evaluate_fresh)
  from assms(2) obtain agg where agg: "aggregate_loop (record_scores rs []) [] = Some agg"
    and rows: "report_summary rep = py_sort_key key_lt summary_key (map (summary_row_of A') agg)"
    by (auto simp: export_report_def aggregate_def by_asset split: Option.bind_splits)
  have ok: "row_max r \<noteq> NaN \<and> row_avg r \<noteq> NaN" if "r \<in> set (map (summary_row_of A') agg)" for r
  proof -
    from that obtain km where km: "km \<in> set agg" and r: "r = summary_row_of A' km" by auto
    from aggregate_loop_entries[OF agg km] obtain k vs where
      vs: "(k, vs) \<in> set (record_scores rs [])" "vs \<noteq> []" "aggregate_entry vs = Some (snd km)"
      by auto
    from record_scores_entry(1)[OF vs(1)] have "vs = scores_of rs k" .
    then have "\<forall>v \<in> set vs. nonneg v"
      using event_results_nonneg[OF rs] by (auto simp: scores_of_def)
    from aggregate_entry_nonneg[OF vs(3) vs(2) this]
    have "nonneg (row_max r)" "nonneg (row_avg r)" by (cases km; simp add: r)+
    then show ?thesis by (simp add: nonneg_not_NaN)
  qed
  then have sorted: "sorted_wrt summary_before (report_summary rep)"
    unfolding rows by (intro py_sort_key_summary_sorted) blast
  have "i < j" if ij: "i < length (report_summary rep)" "j < length (report_summary rep)"
    and mx: "row_max (report_summary rep ! i) = row_max (report_summary rep ! j)"
    and av: "row_avg (report_summary rep ! i) = Fin 10" "row_avg (report_summary rep ! j) = Fin 5"
    for i j
  proof (rule ccontr)
    assume "\<not> i < j"
    moreover have "i \<noteq> j" using av by auto
    ultimately have "j < i" by simp
    with sorted ij have "summary_before (report_summary rep ! j) (report_summary rep ! i)"
      by (simp add: sorted_wrt_iff_nth_less)
    with mx av show False by (simp add: summary_before_def)
  qed
  moreover have "\<exists>agg. aggregate eng = Some agg \<and>
      mset (report_summary rep) = mset (map (summary_row_of A') agg)"
    using agg rows by (simp add: aggregate_def by_asset)
  ultimately show ?thesis using sorted by blast
qed

text \<open>The sorting scenario: \<^verbatim>\<open>B\<close> is aggregated first and reported second.\<close>

lemma sorting_report_rows:
  "map_option (map (\<lambda>x. (row_asset x, row_max x, row_avg x)) \<circ> report_summary) sorting_report =
   Some [(''A'', Fin 10, Fin 10), (''B'', Fin 10, Fin 5)]"
  by (simp add: sorting_report_def sorting_engine_def evaluate_def RiskEngine_def policy_of_def
      severity_rule_def severity_event_def asset_A_def asset_B_def scenario_simps rnd_half
      export_report_def aggregate_def aggregate_entry_def percentile_interpolation
      py_sort_key_def float_of_int_def py_sum_def summary_row_of_def summary_key_def)

theorem summary_sorted_witness:
  "\<exists>eng rep. evaluate sorting_engine = Some eng \<and>
     export_report 0 eng [''A'' \<mapsto> asset_A, ''B'' \<mapsto> asset_B] = Some rep \<and>
     sorted_wrt summary_before (report_summary rep) \<and>
     map (\<lambda>x. (row_asset x, row_max x, row_avg x)) (report_summary rep) =
       [(''A'', Fin 10, Fin 10), (''B'', Fin 10, Fin 5)]"
proof -
  from sorting_report_rows obtain eng rep where
    eng: "evaluate sorting_engine = Some eng"
    and rep: "export_report 0 eng [''A'' \<mapsto> asset_A, ''B'' \<mapsto> asset_B] = Some rep"
    and rows: "map (\<lambda>x. (row_asset x, row_max x, row_avg x)) (report_summary rep) =
       [(''A'', Fin 10, Fin 10), (''B'', Fin 10, Fin 5)]"
    by (auto simp: sorting_report_def split: Option.bind_splits)
  from summary_sorted [OF eng [unfolded sorting_engine_def] rep]
  have sorted: "sorted_wrt summary_before (report_summary rep)" by blast
  show ?thesis
  proof (intro exI conjI)
    show "evaluate sorting_engine = Some eng" by (rule eng)
    show "export_report 0 eng [''A'' \<mapsto> asset_A, ''B'' \<mapsto> asset_B] = Some rep" by (rule rep)
    show "sorted_wrt summary_before (report_summary rep)" by (rule sorted)
    show "map (\<lambda>x. (row_asset x, row_max x, row_avg x)) (report_summary rep) =
       [(''A'', Fin 10, Fin 10), (''B'', Fin 10, Fin 5)]" by (rule rows)
  qed
qed

end
